theory Spec2Isabelle
  imports Complex_Main
begin

section \<open>Values and exceptions\<close>

text \<open>
  The prompt parser of \<^verbatim>\<open>ldm/invoke/prompt_parser.py\<close> is dynamically typed: one
  list may hold strings, numbers, parse results and AST nodes. The type \<open>node\<close> is the
  universe of the Python values the module handles. Floats are modelled as real numbers,
  strings as lists of 8-bit characters (code points below 256). A sequence attribute that
  the code only iterates over (\<open>children\<close>, \<open>prompts\<close>, \<open>weights\<close>) is stored as the list
  of its elements; \<open>original\<close> and \<open>edited\<close> of a substitution are dispatched on by type
  and are stored as values.
\<close>

datatype error =
    ParsingException
  | ParseException
  | AttributeError
  | TypeError
  | IndexError
  | RecursionError
  | OverflowError
  | NonTermination

datatype node =
    PyStr string
  | PyFloat real
  | PyInt int
  | PyTuple "node list"
  | PyList "node list"
  | ParseResults "node list"
  | Fragment string real
  | Attention real "node list"
  | CrossAttentionControlSubstitute node node
  | CrossAttentionControlAppend node
  | Prompt "node list"
  | FlattenedPrompt "node list"
  | Blend "node list" "real list" bool
  | Conjunction "node list" "real list"

fun is_Fragment :: "node \<Rightarrow> bool" where
  "is_Fragment (Fragment t w) = True"
| "is_Fragment n = False"

fun is_Attention :: "node \<Rightarrow> bool" where
  "is_Attention (Attention w cs) = True"
| "is_Attention n = False"

fun is_Substitute :: "node \<Rightarrow> bool" where
  "is_Substitute (CrossAttentionControlSubstitute a b) = True"
| "is_Substitute n = False"

fun is_Prompt :: "node \<Rightarrow> bool" where
  "is_Prompt (Prompt cs) = True"
| "is_Prompt n = False"

fun is_FlattenedPrompt :: "node \<Rightarrow> bool" where
  "is_FlattenedPrompt (FlattenedPrompt cs) = True"
| "is_FlattenedPrompt n = False"

fun is_Blend :: "node \<Rightarrow> bool" where
  "is_Blend (Blend ps ws nw) = True"
| "is_Blend n = False"

fun is_Conjunction :: "node \<Rightarrow> bool" where
  "is_Conjunction (Conjunction ps ws) = True"
| "is_Conjunction n = False"

text \<open>\<open>issubclass(type(c), CrossAttentionControlledFragment)\<close> and
  \<open>issubclass(type(c), BaseFragment)\<close>.\<close>

fun is_CrossAttentionControlledFragment :: "node \<Rightarrow> bool" where
  "is_CrossAttentionControlledFragment (CrossAttentionControlSubstitute a b) = True"
| "is_CrossAttentionControlledFragment (CrossAttentionControlAppend f) = True"
| "is_CrossAttentionControlledFragment n = False"

definition is_BaseFragment :: "node \<Rightarrow> bool" where
  "is_BaseFragment n = (is_Fragment n \<or> is_CrossAttentionControlledFragment n)"

text \<open>Attribute reads: a missing attribute raises \<open>AttributeError\<close>.\<close>

fun attr_text :: "node \<Rightarrow> error + string" where
  "attr_text (Fragment t w) = Inr t"
| "attr_text n = Inl AttributeError"

fun attr_weight :: "node \<Rightarrow> error + real" where
  "attr_weight (Fragment t w) = Inr w"
| "attr_weight (Attention w cs) = Inr w"
| "attr_weight n = Inl AttributeError"

fun attr_fragment :: "node \<Rightarrow> error + node" where
  "attr_fragment (CrossAttentionControlAppend f) = Inr f"
| "attr_fragment n = Inl AttributeError"

text \<open>\<open>for c in x\<close>: the elements of a sequence; other values are not iterable.\<close>

fun py_iter :: "node \<Rightarrow> error + node list" where
  "py_iter (PyList xs) = Inr xs"
| "py_iter (ParseResults xs) = Inr xs"
| "py_iter (PyTuple xs) = Inr xs"
| "py_iter (PyStr s) = Inr (map (\<lambda>c. PyStr [c]) s)"
| "py_iter n = Inl TypeError"

section \<open>Constructors\<close>

text \<open>\<open>Prompt.__init__\<close>: every part is an \<open>Attention\<close> or a \<open>BaseFragment\<close>.\<close>

definition Prompt_init :: "node list \<Rightarrow> error + node" where
  "Prompt_init parts =
     (if \<exists>c \<in> set parts. \<not> is_Attention c \<and> \<not> is_BaseFragment c
      then Inl ParsingException
      else Inr (Prompt parts))"

text \<open>\<open>FlattenedPrompt.__init__\<close>: fragments are kept, \<open>(str, number)\<close> tuples are
  upgraded to fragments, anything else is refused.\<close>

fun convert_part :: "node \<Rightarrow> error + node" where
  "convert_part (PyTuple []) = Inl IndexError"
| "convert_part (PyTuple [PyStr t]) = Inl IndexError"
| "convert_part (PyTuple (PyStr t # PyFloat w # more)) = Inr (Fragment t w)"
| "convert_part (PyTuple (PyStr t # PyInt i # more)) = Inr (Fragment t (of_int i))"
| "convert_part (PyTuple parts) = Inl ParsingException"
| "convert_part part = (if is_BaseFragment part then Inr part else Inl ParsingException)"

fun convert_parts :: "node list \<Rightarrow> error + node list" where
  "convert_parts [] = Inr []"
| "convert_parts (part # parts) =
     (case convert_part part of
        Inl e \<Rightarrow> Inl e
      | Inr p \<Rightarrow> (case convert_parts parts of Inl e \<Rightarrow> Inl e | Inr ps \<Rightarrow> Inr (p # ps)))"

definition FlattenedPrompt_init :: "node list \<Rightarrow> error + node" where
  "FlattenedPrompt_init parts =
     (case convert_parts parts of Inl e \<Rightarrow> Inl e | Inr ps \<Rightarrow> Inr (FlattenedPrompt ps))"

text \<open>\<open>Blend.__init__\<close>: the counts are compared first, then the type of every prompt.\<close>

definition Blend_init :: "node list \<Rightarrow> real list \<Rightarrow> bool \<Rightarrow> error + node" where
  "Blend_init prompts weights normalize_weights =
     (if length prompts \<noteq> length weights then Inl ParsingException
      else if \<exists>c \<in> set prompts. \<not> is_Prompt c \<and> \<not> is_FlattenedPrompt c
      then Inl ParsingException
      else Inr (Blend prompts weights normalize_weights))"

text \<open>\<open>Conjunction.__init__\<close>: an entry that is no \<open>Prompt\<close>, \<open>Blend\<close> or
  \<open>FlattenedPrompt\<close> is passed to \<open>Prompt(x)\<close>, which iterates over it; the weights
  default to \<open>1.0\<close> each, and the counts are compared last.\<close>

definition force_prompt :: "node \<Rightarrow> error + node" where
  "force_prompt x =
     (if is_Prompt x \<or> is_Blend x \<or> is_FlattenedPrompt x then Inr x
      else (case py_iter x of Inl e \<Rightarrow> Inl e | Inr parts \<Rightarrow> Prompt_init parts))"

fun force_prompts :: "node list \<Rightarrow> error + node list" where
  "force_prompts [] = Inr []"
| "force_prompts (x # xs) =
     (case force_prompt x of
        Inl e \<Rightarrow> Inl e
      | Inr p \<Rightarrow> (case force_prompts xs of Inl e \<Rightarrow> Inl e | Inr ps \<Rightarrow> Inr (p # ps)))"

definition Conjunction_init :: "node list \<Rightarrow> real list option \<Rightarrow> error + node" where
  "Conjunction_init prompts weights =
     (case force_prompts prompts of
        Inl e \<Rightarrow> Inl e
      | Inr ps \<Rightarrow>
          (let ws = (case weights of None \<Rightarrow> replicate (length ps) 1 | Some given \<Rightarrow> given)
           in if length ws \<noteq> length ps then Inl ParsingException
              else Inr (Conjunction ps ws)))"

section \<open>Equality methods\<close>

text \<open>\<open>Fragment.__eq__\<close> compares the type, the text and the weight.
  \<open>Attention.__eq__\<close> compares the type and the weight and then reads the attribute
  \<open>fragment\<close> of both operands, which an \<open>Attention\<close> does not have.\<close>

definition Fragment_eq :: "node \<Rightarrow> node \<Rightarrow> error + bool" where
  "Fragment_eq self other =
     (if \<not> is_Fragment other then Inr False
      else (case attr_text other of Inl e \<Rightarrow> Inl e | Inr t' \<Rightarrow>
           (case attr_text self of Inl e \<Rightarrow> Inl e | Inr t \<Rightarrow>
            if t' \<noteq> t then Inr False
            else (case attr_weight other of Inl e \<Rightarrow> Inl e | Inr w' \<Rightarrow>
                 (case attr_weight self of Inl e \<Rightarrow> Inl e | Inr w \<Rightarrow> Inr (w' = w))))))"

definition Attention_eq :: "node \<Rightarrow> node \<Rightarrow> error + bool" where
  "Attention_eq self other =
     (if \<not> is_Attention other then Inr False
      else (case attr_weight other of Inl e \<Rightarrow> Inl e | Inr w' \<Rightarrow>
           (case attr_weight self of Inl e \<Rightarrow> Inl e | Inr w \<Rightarrow>
            if w' \<noteq> w then Inr False
            else (case attr_fragment other of Inl e \<Rightarrow> Inl e | Inr f' \<Rightarrow>
                 (case attr_fragment self of Inl e \<Rightarrow> Inl e | Inr f \<Rightarrow> Inr (f' = f))))))"

section \<open>Flattening\<close>

text \<open>\<open>fuse_fragments\<close>: the loop over \<open>items\<close> with its \<open>result\<close> list. A substitution
  has both sides fused on their own and is appended; any other item must have a
  \<open>text\<close> and a \<open>weight\<close>, and is merged into the last result when that is no
  cross-attention fragment and has the same weight.\<close>

fun last_weight_of :: "node list \<Rightarrow> error + real option" where
  "last_weight_of result =
     (if result \<noteq> [] \<and> \<not> is_CrossAttentionControlledFragment (last result)
      then (case attr_weight (last result) of Inl e \<Rightarrow> Inl e | Inr w \<Rightarrow> Inr (Some w))
      else Inr None)"

definition fuse_item :: "node list \<Rightarrow> node \<Rightarrow> error + node list" where
  "fuse_item result x =
     (case last_weight_of result of Inl e \<Rightarrow> Inl e | Inr last_weight \<Rightarrow>
     (case attr_text x of Inl e \<Rightarrow> Inl e | Inr this_text \<Rightarrow>
     (case attr_weight x of Inl e \<Rightarrow> Inl e | Inr this_weight \<Rightarrow>
      if last_weight = Some this_weight
      then (case attr_text (last result) of Inl e \<Rightarrow> Inl e | Inr last_text \<Rightarrow>
              Inr (butlast result @ [Fragment (last_text @ '' '' @ this_text) this_weight]))
      else Inr (result @ [x]))))"

fun fuse_loop :: "node list \<Rightarrow> node list \<Rightarrow> error + node list"
  and fuse_side :: "node \<Rightarrow> error + node list" where
  "fuse_loop result [] = Inr result"
| "fuse_loop result (CrossAttentionControlSubstitute original edited # items) =
     (case fuse_side original of Inl e \<Rightarrow> Inl e | Inr original_fused \<Rightarrow>
     (case fuse_side edited of Inl e \<Rightarrow> Inl e | Inr edited_fused \<Rightarrow>
        fuse_loop (result @ [CrossAttentionControlSubstitute (PyList original_fused)
                               (PyList edited_fused)]) items))"
| "fuse_loop result (x # items) =
     (case fuse_item result x of Inl e \<Rightarrow> Inl e | Inr result' \<Rightarrow> fuse_loop result' items)"
| "fuse_side (PyList xs) = fuse_loop [] xs"
| "fuse_side (ParseResults xs) = fuse_loop [] xs"
| "fuse_side (PyTuple xs) = fuse_loop [] xs"
| "fuse_side (PyStr s) = (if s = [] then Inr [] else Inl AttributeError)"
| "fuse_side n = Inl TypeError"

definition fuse_fragments :: "node list \<Rightarrow> error + node list" where
  "fuse_fragments items = fuse_loop [] items"

text \<open>\<open>flatten_internal\<close>, with the loops over children as \<open>flatten_each\<close>. The
  \<open>prefix\<close> argument only feeds the debug output and is left out.\<close>

fun flatten_internal :: "node \<Rightarrow> real \<Rightarrow> node list \<Rightarrow> error + node list"
  and flatten_each :: "node list \<Rightarrow> real \<Rightarrow> node list \<Rightarrow> error + node list" where
  "flatten_internal (ParseResults xs) weight_scale results =
     flatten_each xs weight_scale results"
| "flatten_internal (Attention weight children) weight_scale results =
     flatten_each children (weight_scale * weight) results"
| "flatten_internal (Fragment text weight) weight_scale results =
     Inr (results @ [Fragment text (weight * weight_scale)])"
| "flatten_internal (CrossAttentionControlSubstitute original edited) weight_scale results =
     (case flatten_internal original weight_scale [] of Inl e \<Rightarrow> Inl e | Inr orig \<Rightarrow>
     (case flatten_internal edited weight_scale [] of Inl e \<Rightarrow> Inl e | Inr edit \<Rightarrow>
        Inr (results @ [CrossAttentionControlSubstitute (PyList orig) (PyList edit)])))"
| "flatten_internal (Blend prompts weights normalize_weights) weight_scale results =
     (case flatten_each prompts weight_scale [] of Inl e \<Rightarrow> Inl e
      | Inr flattened_subprompts \<Rightarrow>
     (case Blend_init flattened_subprompts weights True of Inl e \<Rightarrow> Inl e
      | Inr b \<Rightarrow> Inr (results @ [b])))"
| "flatten_internal (Prompt children) weight_scale results =
     (case flatten_each children weight_scale [] of Inl e \<Rightarrow> Inl e
      | Inr flattened_prompt \<Rightarrow>
     (case fuse_fragments flattened_prompt of Inl e \<Rightarrow> Inl e | Inr fused \<Rightarrow>
     (case FlattenedPrompt_init fused of Inl e \<Rightarrow> Inl e | Inr p \<Rightarrow> Inr (results @ [p]))))"
| "flatten_internal n weight_scale results = Inl ParsingException"
| "flatten_each [] weight_scale results = Inr results"
| "flatten_each (x # xs) weight_scale results =
     (case flatten_internal x weight_scale results of Inl e \<Rightarrow> Inl e
      | Inr results' \<Rightarrow> flatten_each xs weight_scale results')"

text \<open>\<open>flatten\<close>: every part of the root conjunction is flattened into a fresh list, and
  the parts are wrapped with the root's weights.\<close>

fun flatten_parts :: "node list \<Rightarrow> error + node list" where
  "flatten_parts [] = Inr []"
| "flatten_parts (part # parts) =
     (case flatten_internal part 1 [] of Inl e \<Rightarrow> Inl e | Inr fs \<Rightarrow>
     (case flatten_parts parts of Inl e \<Rightarrow> Inl e | Inr rest \<Rightarrow> Inr (fs @ rest)))"

fun flatten :: "node \<Rightarrow> error + node" where
  "flatten (Conjunction prompts weights) =
     (case flatten_parts prompts of Inl e \<Rightarrow> Inl e
      | Inr flattened_parts \<Rightarrow> Conjunction_init flattened_parts (Some weights))"
| "flatten n = Inl AttributeError"


section \<open>Strings\<close>

text \<open>Python's \<open>string.whitespace\<close>, \<open>string.printable\<close> without whitespace
  (\<open>pyparsing.printables\<close>), \<open>pyparsing.nums\<close>, the characters pyparsing skips before a
  token by default, and the characters \<open>str.strip\<close> removes (\<open>str.isspace\<close>, for code
  points below 256).\<close>

definition string_whitespace :: string where
  "string_whitespace = [CHR 0x20, CHR 0x09, CHR 0x0A, CHR 0x0D, CHR 0x0B, CHR 0x0C]"

definition nums :: string where
  "nums = ''0123456789''"

definition printables :: string where
  "printables = ''0123456789abcdefghijklmnopqrstuvwxyzABCDEFGHIJKLMNOPQRSTUVWXYZ'' @
     ''!'' @ [CHR 0x22] @ ''#$%&'' @ [CHR 0x27] @ ''()*+,-./:;<=>?@['' @ [CHR 0x5C] @
     '']^_'' @ [CHR 0x60] @ ''{|}~''"

definition default_whitespace :: string where
  "default_whitespace = [CHR 0x20, CHR 0x0A, CHR 0x09, CHR 0x0D]"

definition py_isspace :: "char \<Rightarrow> bool" where
  "py_isspace c = (c \<in> set [CHR 0x09, CHR 0x0A, CHR 0x0B, CHR 0x0C, CHR 0x0D, CHR 0x1C,
     CHR 0x1D, CHR 0x1E, CHR 0x1F, CHR 0x20, CHR 0x85, CHR 0xA0])"

text \<open>\<open>len(s.strip()) == 0\<close>.\<close>

definition is_blank :: "string \<Rightarrow> bool" where
  "is_blank s = list_all py_isspace s"

text \<open>\<open>str.expandtabs()\<close>: a tab becomes spaces up to the next multiple of eight columns;
  the column restarts after a newline or a carriage return.\<close>

fun expandtabs_at :: "nat \<Rightarrow> string \<Rightarrow> string" where
  "expandtabs_at col [] = []"
| "expandtabs_at col (c # cs) =
     (if c = CHR 0x09 then replicate (8 - col mod 8) (CHR 0x20) @ expandtabs_at 0 cs
      else if c = CHR 0x0A \<or> c = CHR 0x0D then c # expandtabs_at 0 cs
      else c # expandtabs_at (Suc col) cs)"

definition expandtabs :: "string \<Rightarrow> string" where
  "expandtabs s = expandtabs_at 0 s"

text \<open>\<open>sep.join(xs)\<close>: every element must be a string.\<close>

fun py_join :: "string \<Rightarrow> node list \<Rightarrow> error + string" where
  "py_join sep [] = Inr []"
| "py_join sep [PyStr s] = Inr s"
| "py_join sep (PyStr s # x # xs) =
     (case py_join sep (x # xs) of Inl e \<Rightarrow> Inl e | Inr rest \<Rightarrow> Inr (s @ sep @ rest))"
| "py_join sep (n # xs) = Inl TypeError"

text \<open>\<open>x[i]\<close> on a sequence.\<close>

fun py_index :: "node \<Rightarrow> nat \<Rightarrow> error + node" where
  "py_index (PyList xs) i = (if i < length xs then Inr (xs ! i) else Inl IndexError)"
| "py_index (ParseResults xs) i = (if i < length xs then Inr (xs ! i) else Inl IndexError)"
| "py_index (PyTuple xs) i = (if i < length xs then Inr (xs ! i) else Inl IndexError)"
| "py_index (PyStr s) i = (if i < length s then Inr (PyStr [s ! i]) else Inl IndexError)"
| "py_index n i = Inl TypeError"

text \<open>Decimal digits read as a number, for \<open>float(str)\<close>.\<close>

definition digit_value :: "char \<Rightarrow> nat" where
  "digit_value c = of_char c - 48"

definition digits_value :: "string \<Rightarrow> nat" where
  "digits_value ds = foldl (\<lambda>a c. 10 * a + digit_value c) 0 ds"

section \<open>The parsing library\<close>

text \<open>
  The grammar is written with pyparsing (3.0). A parser element is a function from the
  rest of the input to a result: it matches, giving its tokens and what is left of the
  input, or it does not match (pyparsing's \<open>ParseException\<close>, which the enclosing
  alternative catches), or another exception escapes from a parse action. No element of
  this grammar looks behind the current position, so the rest of the input stands for
  pyparsing's pair of input string and location.

  Whitespace: an element whose \<open>skipWhitespace\<close> flag is set first skips the characters
  of \<open>default_whitespace\<close>. The elements below do not skip; the grammar wraps an element
  in \<open>ws\<close> where pyparsing sets the flag: every token except \<open>CharsNotIn\<close>, a \<open>Combine\<close>
  (but nothing inside it), and an enclosing element exactly when its first element (for
  \<open>MatchFirst\<close>: each alternative) skips. Where an enclosing element starts with a token
  that skips, skipping twice is skipping once and the outer \<open>ws\<close> is left out; it is
  written where it shows, on a \<open>ZeroOrMore\<close> or \<open>Optional\<close> that may match nothing.
\<close>

datatype presult =
    Match "node list" string
  | NoMatch
  | Raised error

type_synonym parser = "string \<Rightarrow> presult"

definition skip_whitespace :: "string \<Rightarrow> string" where
  "skip_whitespace s = dropWhile (\<lambda>c. c \<in> set default_whitespace) s"

definition ws :: "parser \<Rightarrow> parser" where
  "ws p s = p (skip_whitespace s)"

definition Literal :: "string \<Rightarrow> parser" where
  "Literal lit s =
     (if take (length lit) s = lit then Match [PyStr lit] (drop (length lit) s) else NoMatch)"

definition Word :: "string \<Rightarrow> string \<Rightarrow> parser" where
  "Word init_chars exclude_chars s =
     (let ok = (\<lambda>c. c \<in> set init_chars \<and> c \<notin> set exclude_chars)
      in if takeWhile ok s = [] then NoMatch
         else Match [PyStr (takeWhile ok s)] (dropWhile ok s))"

definition CharsNotIn :: "string \<Rightarrow> parser" where
  "CharsNotIn not_chars s =
     (let ok = (\<lambda>c. c \<notin> set not_chars)
      in if takeWhile ok s = [] then NoMatch
         else Match [PyStr (takeWhile ok s)] (dropWhile ok s))"

definition StringEnd :: parser where
  "StringEnd s = (if skip_whitespace s = [] then Match [] [] else NoMatch)"

definition Suppress :: "parser \<Rightarrow> parser" where
  "Suppress p s = (case p s of Match ts r \<Rightarrow> Match [] r | other \<Rightarrow> other)"

definition Group :: "parser \<Rightarrow> parser" where
  "Group p s = (case p s of Match ts r \<Rightarrow> Match [ParseResults ts] r | other \<Rightarrow> other)"

fun And :: "parser list \<Rightarrow> parser" where
  "And [] s = Match [] s"
| "And (p # ps) s =
     (case p s of
        Match ts r \<Rightarrow> (case And ps r of Match ts' r' \<Rightarrow> Match (ts @ ts') r' | other \<Rightarrow> other)
      | other \<Rightarrow> other)"

fun MatchFirst :: "parser list \<Rightarrow> parser" where
  "MatchFirst [] s = NoMatch"
| "MatchFirst (p # ps) s = (case p s of NoMatch \<Rightarrow> MatchFirst ps s | other \<Rightarrow> other)"

definition Optional :: "parser \<Rightarrow> parser" where
  "Optional p s = (case p s of NoMatch \<Rightarrow> Match [] s | other \<Rightarrow> other)"

text \<open>The repetition loops of pyparsing go on until the element fails. A round that
  matches without consuming input would repeat forever; no element of this grammar does
  that, and the model gives such a round the result \<open>Raised NonTermination\<close>.\<close>

function ZeroOrMore :: "parser \<Rightarrow> parser" where
  "ZeroOrMore p s =
     (case p s of
        NoMatch \<Rightarrow> Match [] s
      | Raised e \<Rightarrow> Raised e
      | Match ts r \<Rightarrow>
          (if length r < length s
           then (case ZeroOrMore p r of Match ts' r' \<Rightarrow> Match (ts @ ts') r' | other \<Rightarrow> other)
           else Raised NonTermination))"
  by pat_completeness auto
termination
  by (relation "measure (\<lambda>(p, s). length s)") auto

declare ZeroOrMore.simps [simp del]

definition OneOrMore :: "parser \<Rightarrow> parser" where
  "OneOrMore p s =
     (case p s of
        Match ts r \<Rightarrow>
          (case ZeroOrMore p r of Match ts' r' \<Rightarrow> Match (ts @ ts') r' | other \<Rightarrow> other)
      | other \<Rightarrow> other)"

text \<open>\<open>Combine\<close> skips whitespace itself, lets nothing inside skip, and joins the
  strings it matched into one token.\<close>

definition Combine :: "parser \<Rightarrow> parser" where
  "Combine p s =
     (case p (skip_whitespace s) of
        Match ts r \<Rightarrow> (case py_join [] ts of Inl e \<Rightarrow> Raised e | Inr t \<Rightarrow> Match [PyStr t] r)
      | other \<Rightarrow> other)"

text \<open>A parse action receives the tokens and returns a value: a list or parse results
  stand for their elements, any other value is one token. A \<open>ParseException\<close> or an
  \<open>IndexError\<close> raised in the action makes the element fail to match; any other
  exception escapes.\<close>

fun as_tokens :: "node \<Rightarrow> node list" where
  "as_tokens (PyList xs) = xs"
| "as_tokens (ParseResults xs) = xs"
| "as_tokens n = [n]"

definition set_parse_action :: "(node \<Rightarrow> error + node) \<Rightarrow> parser \<Rightarrow> parser" where
  "set_parse_action fn p s =
     (case p s of
        Match ts r \<Rightarrow>
          (case fn (ParseResults ts) of
             Inr v \<Rightarrow> Match (as_tokens v) r
           | Inl e \<Rightarrow> if e = ParseException \<or> e = IndexError then NoMatch else Raised e)
      | other \<Rightarrow> other)"

text \<open>\<open>Or\<close> tries every alternative without its parse actions, then runs the alternatives
  that matched, longest match first (earlier alternative first among equals), with their
  actions, and returns the first that still matches. Each alternative is given as the
  pair of its action-free form and its full form. The actions of this grammar do not
  change how much an alternative consumes.\<close>

fun or_try :: "(parser \<times> parser) list \<Rightarrow> string \<Rightarrow> error + (nat \<times> parser) list" where
  "or_try [] s = Inr []"
| "or_try ((try, full) # alts) s =
     (case try s of
        Raised e \<Rightarrow> Inl e
      | NoMatch \<Rightarrow> or_try alts s
      | Match ts r \<Rightarrow>
          (case or_try alts s of Inl e \<Rightarrow> Inl e | Inr ms \<Rightarrow> Inr ((length r, full) # ms)))"

definition Or :: "(parser \<times> parser) list \<Rightarrow> parser" where
  "Or alts s =
     (case or_try alts s of
        Inl e \<Rightarrow> Raised e
      | Inr matches \<Rightarrow> MatchFirst (map snd (sort_key fst matches)) s)"

text \<open>\<open>parse_string\<close> (without \<open>parse_all\<close>): tabs are expanded, the element is run at the
  start of the input, and what it leaves unread is ignored.\<close>

definition parse_string :: "parser \<Rightarrow> string \<Rightarrow> error + node" where
  "parse_string p instring =
     (case p (expandtabs instring) of
        Match ts r \<Rightarrow> Inr (ParseResults ts)
      | NoMatch \<Rightarrow> Inl ParseException
      | Raised e \<Rightarrow> Inl e)"


subsection \<open>Numbers and quoted strings\<close>

text \<open>\<open>pyparsing_common.real\<close>: the regular expression \<open>[+-]?(?:\d+\.\d*|\.\d+)\<close>,
  converted by \<open>float\<close>. \<open>Word(nums)\<close> with \<open>token_map(float)\<close> reads an integer.\<close>

definition is_digit :: "char \<Rightarrow> bool" where
  "is_digit c = (c \<in> set nums)"

definition float_of_decimal :: "bool \<Rightarrow> string \<Rightarrow> string \<Rightarrow> real" where
  "float_of_decimal negative int_part frac_part =
     (let v = real (digits_value int_part)
              + real (digits_value frac_part) / 10 ^ length frac_part
      in if negative then - v else v)"

definition split_sign :: "string \<Rightarrow> bool \<times> string" where
  "split_sign s =
     (case s of
        [] \<Rightarrow> (False, s)
      | c # cs \<Rightarrow> if c = CHR ''+'' then (False, cs)
                 else if c = CHR ''-'' then (True, cs) else (False, s))"

definition real_regex :: parser where
  "real_regex s =
     (let (negative, r1) = split_sign s;
          int_part = takeWhile is_digit r1;
          r2 = dropWhile is_digit r1
      in case r2 of
           [] \<Rightarrow> NoMatch
         | c # r3 \<Rightarrow>
             if c = CHR ''.'' \<and> (int_part \<noteq> [] \<or> takeWhile is_digit r3 \<noteq> [])
             then Match [PyFloat (float_of_decimal negative int_part (takeWhile is_digit r3))]
                        (dropWhile is_digit r3)
             else NoMatch)"

definition pyparsing_common_real :: parser where
  "pyparsing_common_real s = ws real_regex s"

definition to_float :: "node \<Rightarrow> error + node" where
  "to_float x =
     (case x of ParseResults [PyStr ds] \<Rightarrow> Inr (PyFloat (real (digits_value ds)))
      | other \<Rightarrow> Inl TypeError)"

definition number :: parser where
  "number s = MatchFirst [pyparsing_common_real, set_parse_action to_float (ws (Word nums []))] s"

text \<open>\<open>QuotedString(quote_char='"', esc_char='\\')\<close>: the regular expression
  \<open>"(?:(?:\\.)|(?:[^"\n\r\\]))*"\<close>. Of the match, the quotes are stripped, the escapes
  \<open>\t \n \f \r\<close> become the whitespace they name, and then every remaining backslash is
  dropped from before the character it escapes.\<close>

fun quoted_body :: "string \<Rightarrow> (string \<times> string) option" where
  "quoted_body [] = None"
| "quoted_body [c] = (if c = CHR 0x22 then Some ([], []) else None)"
| "quoted_body (c # d # cs) =
     (if c = CHR 0x22 then Some ([], d # cs)
      else if c = CHR 0x5C
      then (if d = CHR 0x0A then None
            else map_option (\<lambda>(b, r). (c # d # b, r)) (quoted_body cs))
      else if c = CHR 0x0A \<or> c = CHR 0x0D then None
      else map_option (\<lambda>(b, r). (c # b, r)) (quoted_body (d # cs)))"

fun replace_escape :: "char \<Rightarrow> char \<Rightarrow> string \<Rightarrow> string" where
  "replace_escape letter by (c # d # cs) =
     (if c = CHR 0x5C \<and> d = letter then by # replace_escape letter by cs
      else c # replace_escape letter by (d # cs))"
| "replace_escape letter by cs = cs"

fun drop_escapes :: "string \<Rightarrow> string" where
  "drop_escapes (c # d # cs) =
     (if c = CHR 0x5C \<and> d \<noteq> CHR 0x0A then d # drop_escapes cs
      else c # drop_escapes (d # cs))"
| "drop_escapes cs = cs"

definition unquote :: "string \<Rightarrow> string" where
  "unquote b =
     drop_escapes
       (replace_escape (CHR ''r'') (CHR 0x0D)
         (replace_escape (CHR ''f'') (CHR 0x0C)
           (replace_escape (CHR ''n'') (CHR 0x0A)
             (replace_escape (CHR ''t'') (CHR 0x09) b))))"

definition quoted_raw :: parser where
  "quoted_raw s =
     (case s of
        [] \<Rightarrow> NoMatch
      | c # cs \<Rightarrow>
          if c = CHR 0x22
          then (case quoted_body cs of None \<Rightarrow> NoMatch | Some (b, r) \<Rightarrow> Match [PyStr b] r)
          else NoMatch)"

definition QuotedString :: parser where
  "QuotedString s =
     (case quoted_raw s of Match [PyStr b] r \<Rightarrow> Match [PyStr (unquote b)] r | other \<Rightarrow> other)"

text \<open>\<open>dbl_quoted_string\<close> and \<open>quoted_string\<close>: a \<open>Combine\<close> of the regular expression
  \<open>"(?:[^"\n\r\\]|(?:"")|(?:\\(?:[^x]|x[0-9a-fA-F]+)))*\<close> and the closing quote (for
  \<open>quoted_string\<close> also with single quotes). The token keeps its quotes. The expression
  is greedy and never backtracks, as nothing follows its star; after \<open>\x\<close> and one
  hexadecimal digit the further digits are ordinary characters of the same match.\<close>

definition is_hex :: "char \<Rightarrow> bool" where
  "is_hex c = (c \<in> set ''0123456789abcdefABCDEF'')"

fun quoted_regex_body :: "char \<Rightarrow> string \<Rightarrow> string \<times> string" where
  "quoted_regex_body q [] = ([], [])"
| "quoted_regex_body q (c # cs) =
     (if c \<noteq> q \<and> c \<noteq> CHR 0x0A \<and> c \<noteq> CHR 0x0D \<and> c \<noteq> CHR 0x5C
      then (case quoted_regex_body q cs of (m, r) \<Rightarrow> (c # m, r))
      else (case cs of
              [] \<Rightarrow> ([], c # cs)
            | d # ds \<Rightarrow>
                if c = q \<and> d = q
                then (case quoted_regex_body q ds of (m, r) \<Rightarrow> (c # d # m, r))
                else if c = CHR 0x5C \<and> d \<noteq> CHR ''x''
                then (case quoted_regex_body q ds of (m, r) \<Rightarrow> (c # d # m, r))
                else if c = CHR 0x5C \<and> d = CHR ''x'' \<and> ds \<noteq> [] \<and> is_hex (hd ds)
                then (case quoted_regex_body q (tl ds) of (m, r) \<Rightarrow> (c # d # hd ds # m, r))
                else ([], c # cs)))"

definition quoted_regex :: "char \<Rightarrow> parser" where
  "quoted_regex q s =
     (case s of
        [] \<Rightarrow> NoMatch
      | c # cs \<Rightarrow>
          if c = q then (case quoted_regex_body q cs of (m, r) \<Rightarrow> Match [PyStr (c # m)] r)
          else NoMatch)"

definition dbl_quoted_string :: parser where
  "dbl_quoted_string s = Combine (And [quoted_regex (CHR 0x22), Literal [CHR 0x22]]) s"

definition quoted_string :: parser where
  "quoted_string s =
     Combine (MatchFirst [And [quoted_regex (CHR 0x22), Literal [CHR 0x22]],
                          And [quoted_regex (CHR 0x27), Literal [CHR 0x27]]]) s"

text \<open>\<open>delimited_list(expr, delim)\<close> is \<open>expr + ZeroOrMore(Suppress(delim) + expr)\<close>; the
  repetition skips whitespace because the delimiter literal does.\<close>

definition delimited_list :: "parser \<Rightarrow> string \<Rightarrow> parser" where
  "delimited_list expr delim s =
     And [expr, ws (ZeroOrMore (And [Suppress (ws (Literal delim)), expr]))] s"


section \<open>The grammar\<close>

text \<open>\<open>PromptParser.__init__\<close> stores the two attention bases; \<open>build_parser_logic\<close>
  builds the grammar from them. The grammar is recursive, and the interpreter bounds the
  depth of the calls that run it: when an input nests attentions or parentheses too
  deeply, the interpreter raises \<open>RecursionError\<close>. How much nesting is left to the grammar
  depends on the interpreter's limit and not on the program, so the model carries it with
  the parser, as the field \<open>nesting_limit\<close>.\<close>

record PromptParser =
  attention_plus_base :: real
  attention_minus_base :: real
  nesting_limit :: nat

definition PromptParser_init :: "real \<Rightarrow> real \<Rightarrow> nat \<Rightarrow> PromptParser" where
  "PromptParser_init plus_base minus_base limit =
     \<lparr>attention_plus_base = plus_base, attention_minus_base = minus_base,
      nesting_limit = limit\<rparr>"

text \<open>The default arguments of the constructor. The default limit of 84 lets 41
  attentions nest in each other and makes the 42nd raise \<open>RecursionError\<close>, which is
  where CPython stops under its default recursion limit of 1000 frames.\<close>

definition default_parser :: PromptParser where
  "default_parser = PromptParser_init (11 / 10) (9 / 10) 84"

definition lparen :: parser where
  "lparen s = Suppress (ws (Literal ''('')) s"

definition rparen :: parser where
  "rparen s = Suppress (ws (Literal '')'')) s"

definition quotes :: parser where
  "quotes s = Suppress (ws (Literal [CHR 0x22])) s"

definition SPACE_CHARS :: string where
  "SPACE_CHARS = string_whitespace"

fun make_fragment :: "node \<Rightarrow> error + node" where
  "make_fragment (PyStr x) = Inr (Fragment x 1)"
| "make_fragment (ParseResults xs) =
     (case py_join '' '' xs of Inl e \<Rightarrow> Inl e | Inr t \<Rightarrow> Inr (Fragment t 1))"
| "make_fragment (PyList xs) =
     (case py_join '' '' xs of Inl e \<Rightarrow> Inl e | Inr t \<Rightarrow> Inr (Fragment t 1))"
| "make_fragment x = Inl ParsingException"

text \<open>\<open>pow(base, n)\<close> on a float base: the power, or \<open>OverflowError\<close> when it lies
  outside the range of a double, whose largest value is \<open>(2^53 - 1) * 2^971\<close>.\<close>

definition float_max :: real where
  "float_max = (2 ^ 53 - 1) * 2 ^ 971"

definition py_pow :: "real \<Rightarrow> nat \<Rightarrow> error + real" where
  "py_pow base n = (if float_max < \<bar>base ^ n\<bar> then Inl OverflowError else Inr (base ^ n))"

text \<open>\<open>make_attention\<close>: the weight is the number, or the base to the power of the length
  of the run of signs; the children are the second token.\<close>

fun attention_weight :: "PromptParser \<Rightarrow> node \<Rightarrow> error + real" where
  "attention_weight self (PyFloat f) = Inr f"
| "attention_weight self (PyInt i) = Inr (of_int i)"
| "attention_weight self (PyStr s) =
     (case s of
        [] \<Rightarrow> Inl IndexError
      | c # cs \<Rightarrow>
          py_pow (if c = CHR ''+'' then attention_plus_base self else attention_minus_base self)
            (length s))"
| "attention_weight self x = Inr 1"

definition make_attention :: "PromptParser \<Rightarrow> node \<Rightarrow> error + node" where
  "make_attention self x =
     (case py_index x 0 of Inl e \<Rightarrow> Inl e | Inr x0 \<Rightarrow>
     (case attention_weight self x0 of Inl e \<Rightarrow> Inl e | Inr weight \<Rightarrow>
     (case py_index x 1 of Inl e \<Rightarrow> Inl e | Inr x1 \<Rightarrow>
     (case py_iter x1 of Inl e \<Rightarrow> Inl e | Inr children \<Rightarrow>
        Inr (Attention weight children)))))"

definition attention_head :: parser where
  "attention_head s = MatchFirst [number, ws (Word ''+'' []), ws (Word ''-'' [])] s"

definition fragment_inside_attention :: parser where
  "fragment_inside_attention s =
     set_parse_action make_fragment (CharsNotIn (SPACE_CHARS @ ''()'')) s"

text \<open>\<open>attention_with_parens\<close> is the head followed by \<open>attention_with_parens_body\<close>,
  which is \<open>nested_expr(content=...)\<close> with the default opener, closer and
  \<open>ignore_expr\<close>, that is
  \<open>ret <<= Group(Suppress("(") + ZeroOrMore(quoted_string | ret | content) + Suppress(")"))\<close>
  with the content
  \<open>delimited_list(attention_with_parens | fragment_inside_attention, delim=SPACE_CHARS)\<close>.
  Neither the repetition nor its alternatives skip whitespace as a whole, because
  \<open>CharsNotIn\<close> does not. The two rules call themselves and each other. The depth is
  what the interpreter leaves to these calls: each entry into one of the two rules takes
  one level of it, and an entry at depth zero raises \<open>RecursionError\<close>.\<close>

fun attention_with_parens :: "PromptParser \<Rightarrow> nat \<Rightarrow> parser"
  and attention_with_parens_body :: "PromptParser \<Rightarrow> nat \<Rightarrow> parser" where
  "attention_with_parens self 0 s = Raised RecursionError"
| "attention_with_parens self (Suc depth) s =
     set_parse_action (make_attention self)
       (And [attention_head, (\<lambda>s'. attention_with_parens_body self depth s')]) s"
| "attention_with_parens_body self 0 s = Raised RecursionError"
| "attention_with_parens_body self (Suc depth) s =
     Group (And [Suppress (ws (Literal ''('')),
                 ZeroOrMore (MatchFirst
                   [quoted_string,
                    (\<lambda>s'. attention_with_parens_body self depth s'),
                    delimited_list
                      (MatchFirst [(\<lambda>s'. attention_with_parens self depth s'),
                                   fragment_inside_attention])
                      SPACE_CHARS]),
                 Suppress (ws (Literal '')''))]) s"

definition wrap_fragment :: "node \<Rightarrow> error + node" where
  "wrap_fragment x =
     (case make_fragment x of Inl e \<Rightarrow> Inl e | Inr f \<Rightarrow> Inr (PyList [PyList [f]]))"

definition attention_without_parens :: "PromptParser \<Rightarrow> parser" where
  "attention_without_parens self s =
     set_parse_action (make_attention self)
       (And [MatchFirst [ws (Word ''+'' []), ws (Word ''-'' [])],
             set_parse_action wrap_fragment (CharsNotIn (SPACE_CHARS @ ''()''))]) s"

text \<open>\<open>attention\<close> enters the recursive rule with the whole depth.\<close>

definition attention :: "PromptParser \<Rightarrow> parser" where
  "attention self s =
     MatchFirst [attention_with_parens self (nesting_limit self),
                 attention_without_parens self] s"

text \<open>\<open>parse_fragment_str\<close>: the text inside quotes or parentheses is parsed again, as
  words and attentions.\<close>

definition fragment_parser :: "PromptParser \<Rightarrow> parser" where
  "fragment_parser self s =
     Group (OneOrMore (MatchFirst [attention self,
              set_parse_action make_fragment (ws (Word printables string_whitespace))])) s"

definition parse_fragment_str :: "PromptParser \<Rightarrow> node \<Rightarrow> error + node" where
  "parse_fragment_str self x =
     (case py_index x 0 of
        Inr (PyStr x0) \<Rightarrow>
          if is_blank x0 then Inr (Fragment [] 1)
          else parse_string (fragment_parser self) x0
      | Inr other \<Rightarrow> Inl AttributeError
      | Inl e \<Rightarrow> Inl e)"

text \<open>\<open>quoted_fragment\<close> is one object: the second \<open>set_parse_action\<close> on it, in the
  definition of \<open>parenthesized_fragment\<close>, replaces \<open>make_fragment\<close> by
  \<open>parse_fragment_str\<close> wherever the element is used.\<close>

definition quoted_fragment :: "PromptParser \<Rightarrow> parser" where
  "quoted_fragment self s = set_parse_action (parse_fragment_str self) (ws QuotedString) s"

definition unquoted_fragment :: parser where
  "unquoted_fragment s =
     set_parse_action make_fragment
       (Combine (OneOrMore (MatchFirst
          [Literal [CHR 0x5C, CHR 0x22],
           Literal [CHR 0x5C],
           Word printables (string_whitespace @ [CHR 0x5C, CHR 0x22])]))) s"

definition paren_text :: parser where
  "paren_text s =
     Combine (OneOrMore (MatchFirst
       [Literal [CHR 0x5C, CHR '')''],
        Literal [CHR 0x5C],
        Word printables (string_whitespace @ [CHR 0x5C, CHR '')'']),
        Word string_whitespace []])) s"

definition parenthesized_fragment :: "PromptParser \<Rightarrow> parser" where
  "parenthesized_fragment self s =
     Or [(And [lparen, ws QuotedString, rparen],
          And [lparen, quoted_fragment self, rparen]),
         (And [lparen, rparen],
          set_parse_action (\<lambda>x. make_fragment (PyStr [])) (And [lparen, rparen])),
         (And [lparen, paren_text, rparen],
          And [lparen, set_parse_action (parse_fragment_str self) paren_text, rparen])] s"

text \<open>Cross-attention control.\<close>

definition empty_string :: parser where
  "empty_string s =
     set_parse_action (\<lambda>x. Inr (Fragment [] 1))
       (MatchFirst [And [lparen, rparen],
                    Suppress (ws (Literal [CHR 0x22, CHR 0x22])),
                    And [lparen, Suppress (ws (Literal [CHR 0x22, CHR 0x22])), rparen]]) s"

definition original_fragment :: "PromptParser \<Rightarrow> parser" where
  "original_fragment self s =
     MatchFirst [empty_string, quoted_fragment self, parenthesized_fragment self,
                 unquoted_fragment] s"

definition edited_fragment :: "PromptParser \<Rightarrow> parser" where
  "edited_fragment self s = parenthesized_fragment self s"

definition make_cross_attention_substitute :: "node \<Rightarrow> error + node" where
  "make_cross_attention_substitute x =
     (case py_index x 0 of Inl e \<Rightarrow> Inl e | Inr x0 \<Rightarrow>
     (case py_index x 1 of Inl e \<Rightarrow> Inl e | Inr x1 \<Rightarrow>
        Inr (CrossAttentionControlSubstitute x0 x1)))"

definition cross_attention_substitute :: "PromptParser \<Rightarrow> parser" where
  "cross_attention_substitute self s =
     set_parse_action make_cross_attention_substitute
       (And [original_fragment self, Suppress (ws (Literal ''.swap'')), edited_fragment self]) s"

text \<open>Simple fragments of text, and the root prompt.\<close>

definition prompt_part :: "PromptParser \<Rightarrow> parser" where
  "prompt_part self s =
     MatchFirst [cross_attention_substitute self, attention self, quoted_fragment self,
                 unquoted_fragment] s"

definition empty_prompt :: parser where
  "empty_prompt s =
     MatchFirst [And [lparen, ws (ZeroOrMore (ws (Word string_whitespace []))), rparen],
                 And [quotes, ws (ZeroOrMore (ws (Word string_whitespace []))), quotes]] s"

definition make_prompt :: "node \<Rightarrow> error + node" where
  "make_prompt x =
     (case py_index x 0 of Inl e \<Rightarrow> Inl e | Inr x0 \<Rightarrow>
     (case py_iter x0 of Inl e \<Rightarrow> Inl e | Inr parts \<Rightarrow> Prompt_init parts))"

definition prompt :: "PromptParser \<Rightarrow> parser" where
  "prompt self s =
     set_parse_action make_prompt
       (And [Group (MatchFirst [OneOrMore (prompt_part self), empty_prompt]), StringEnd]) s"

text \<open>Blends and conjunctions of quoted prompts.\<close>

definition make_prompt_from_quoted_string :: "PromptParser \<Rightarrow> node \<Rightarrow> error + node" where
  "make_prompt_from_quoted_string self x =
     (case py_index x 0 of
        Inr (PyStr x0) \<Rightarrow>
          (let x_unquoted = butlast (tl x0)
           in if is_blank x_unquoted then Prompt_init [Fragment [] 1]
              else (case parse_string (prompt self) x_unquoted of
                      Inl e \<Rightarrow> Inl e
                    | Inr x_parsed \<Rightarrow> py_index x_parsed 0))
      | Inr other \<Rightarrow> Inl TypeError
      | Inl e \<Rightarrow> Inl e)"

definition quoted_prompt :: "PromptParser \<Rightarrow> parser" where
  "quoted_prompt self s =
     set_parse_action (make_prompt_from_quoted_string self) dbl_quoted_string s"

definition blend_terms :: "PromptParser \<Rightarrow> parser" where
  "blend_terms self s = delimited_list (quoted_prompt self) '','' s"

definition blend_weights :: parser where
  "blend_weights s = delimited_list number '','' s"

fun py_floats :: "node list \<Rightarrow> error + real list" where
  "py_floats [] = Inr []"
| "py_floats (PyFloat f # xs) =
     (case py_floats xs of Inl e \<Rightarrow> Inl e | Inr fs \<Rightarrow> Inr (f # fs))"
| "py_floats (PyInt i # xs) =
     (case py_floats xs of Inl e \<Rightarrow> Inl e | Inr fs \<Rightarrow> Inr (of_int i # fs))"
| "py_floats (x # xs) = Inl TypeError"

definition make_blend :: "node \<Rightarrow> error + node" where
  "make_blend x =
     (case py_index x 0 of Inl e \<Rightarrow> Inl e | Inr x0 \<Rightarrow>
     (case py_index x0 0 of Inl e \<Rightarrow> Inl e | Inr x00 \<Rightarrow>
     (case py_index x0 1 of Inl e \<Rightarrow> Inl e | Inr x01 \<Rightarrow>
     (case py_iter x00 of Inl e \<Rightarrow> Inl e | Inr prompts \<Rightarrow>
     (case py_iter x01 of Inl e \<Rightarrow> Inl e | Inr weight_tokens \<Rightarrow>
     (case py_floats weight_tokens of Inl e \<Rightarrow> Inl e | Inr weights \<Rightarrow>
        Blend_init prompts weights True))))))"

definition blend :: "PromptParser \<Rightarrow> parser" where
  "blend self s =
     set_parse_action make_blend
       (Group (And [lparen, Group (blend_terms self), rparen,
                    Suppress (ws (Literal ''.blend'')),
                    lparen, Group blend_weights, rparen])) s"

definition conjunction_terms :: "PromptParser \<Rightarrow> parser" where
  "conjunction_terms self s = blend_terms self s"

definition conjunction_weights :: parser where
  "conjunction_weights s = blend_weights s"

definition conjunction_with_parens_and_quotes :: "PromptParser \<Rightarrow> parser" where
  "conjunction_with_parens_and_quotes self s =
     Group (And [lparen, Group (conjunction_terms self), rparen,
                 Suppress (ws (Literal ''.and'')),
                 lparen, ws (Optional (Group conjunction_weights)), rparen]) s"

definition make_conjunction :: "node \<Rightarrow> error + node" where
  "make_conjunction x =
     (case py_index x 0 of Inl e \<Rightarrow> Inl e | Inr x0 \<Rightarrow>
     (case py_index x0 0 of Inl e \<Rightarrow> Inl e | Inr parts_raw \<Rightarrow>
     (case py_iter parts_raw of Inl e \<Rightarrow> Inl e | Inr parts \<Rightarrow>
     (case py_iter x0 of Inl e \<Rightarrow> Inl e | Inr x0_items \<Rightarrow>
        if length x0_items > 1
        then (case py_index x0 1 of Inl e \<Rightarrow> Inl e | Inr x01 \<Rightarrow>
             (case py_iter x01 of Inl e \<Rightarrow> Inl e | Inr weight_tokens \<Rightarrow>
             (case py_floats weight_tokens of Inl e \<Rightarrow> Inl e | Inr weights \<Rightarrow>
                Conjunction_init parts (Some weights))))
        else Conjunction_init parts (Some (replicate (length parts) 1))))))"

definition make_implicit_conjunction :: "node \<Rightarrow> error + node" where
  "make_implicit_conjunction x =
     (case py_iter x of Inl e \<Rightarrow> Inl e | Inr prompts \<Rightarrow> Conjunction_init prompts None)"

definition implicit_conjunction :: "PromptParser \<Rightarrow> parser" where
  "implicit_conjunction self s =
     set_parse_action make_implicit_conjunction
       (OneOrMore (MatchFirst [blend self, prompt self])) s"

definition conjunction :: "PromptParser \<Rightarrow> parser" where
  "conjunction self s =
     MatchFirst [set_parse_action make_conjunction (conjunction_with_parens_and_quotes self),
                 implicit_conjunction self] s"

section \<open>The public entry point\<close>

text \<open>\<open>PromptParser.parse\<close>, with the grammar \<open>self.root\<close> as an argument, and with the
  grammar that \<open>build_parser_logic\<close> returns.\<close>

definition parse_with :: "parser \<Rightarrow> string \<Rightarrow> error + node" where
  "parse_with self_root prompt_text =
     (if is_blank prompt_text
      then (case FlattenedPrompt_init [PyTuple [PyStr [], PyFloat 1]] of
              Inl e \<Rightarrow> Inl e
            | Inr p \<Rightarrow> Conjunction_init [p] (Some [1]))
      else (case parse_string self_root prompt_text of
              Inl e \<Rightarrow> Inl e
            | Inr tokens \<Rightarrow>
                (case py_index tokens 0 of Inl e \<Rightarrow> Inl e | Inr root0 \<Rightarrow> flatten root0)))"

definition parse :: "PromptParser \<Rightarrow> string \<Rightarrow> error + node" where
  "parse self prompt_text = parse_with (conjunction self) prompt_text"


section \<open>Notions used to state the properties\<close>

text \<open>The leaves of a tree of attentions, each with its own weight and the weights of
  the \<open>Attention\<close> nodes that enclose it, outermost first; and the fragment that the
  specification resolves a leaf to under a weight scale: its own weight times the scale
  times the weights of all enclosing attentions.\<close>

fun leaves_in_scope :: "node \<Rightarrow> (string \<times> real \<times> real list) list" where
  "leaves_in_scope (Fragment t w) = [(t, w, [])]"
| "leaves_in_scope (Attention a cs) =
     map (\<lambda>(t, w, scope). (t, w, a # scope)) (concat (map leaves_in_scope cs))"
| "leaves_in_scope (ParseResults xs) = concat (map leaves_in_scope xs)"
| "leaves_in_scope n = []"

text \<open>Trees built from fragments, attentions and grouped parse results only.\<close>

fun attention_tree :: "node \<Rightarrow> bool" where
  "attention_tree (Fragment t w) = True"
| "attention_tree (Attention a cs) = list_all attention_tree cs"
| "attention_tree (ParseResults xs) = list_all attention_tree xs"
| "attention_tree n = False"

definition resolved :: "real \<Rightarrow> string \<times> real \<times> real list \<Rightarrow> node" where
  "resolved weight_scale leaf =
     (case leaf of (t, w, scope) \<Rightarrow> Fragment t (w * (weight_scale * prod_list scope)))"

text \<open>No \<open>Attention\<close> node occurs anywhere in a value.\<close>

fun no_attention :: "node \<Rightarrow> bool" where
  "no_attention (Attention w cs) = False"
| "no_attention (PyTuple xs) = list_all no_attention xs"
| "no_attention (PyList xs) = list_all no_attention xs"
| "no_attention (ParseResults xs) = list_all no_attention xs"
| "no_attention (CrossAttentionControlSubstitute a b) = (no_attention a \<and> no_attention b)"
| "no_attention (CrossAttentionControlAppend f) = no_attention f"
| "no_attention (Prompt cs) = list_all no_attention cs"
| "no_attention (FlattenedPrompt cs) = list_all no_attention cs"
| "no_attention (Blend ps wts nw) = list_all no_attention ps"
| "no_attention (Conjunction ps wts) = list_all no_attention ps"
| "no_attention n = True"

text \<open>The values of a flattened tree: a fragment; a substitution whose two sides are
  lists of such values; a \<open>FlattenedPrompt\<close> whose children are fragments or
  substitutions; a \<open>Blend\<close> of such flattened prompts.\<close>

fun flat_value :: "node \<Rightarrow> bool" where
  "flat_value (Fragment t w) = True"
| "flat_value (CrossAttentionControlSubstitute (PyList xs) (PyList ys)) =
     (list_all flat_value xs \<and> list_all flat_value ys)"
| "flat_value (FlattenedPrompt cs) =
     list_all (\<lambda>c. (is_Fragment c \<or> is_Substitute c) \<and> flat_value c) cs"
| "flat_value (Blend ps wts nw) = list_all (\<lambda>p. is_FlattenedPrompt p \<and> flat_value p) ps"
| "flat_value n = False"

text \<open>What \<open>fuse_fragments\<close> returns on flattened values.\<close>

definition fusable :: "node \<Rightarrow> bool" where
  "fusable c = ((is_Fragment c \<or> is_Substitute c) \<and> flat_value c)"

text \<open>The exceptions that leave a grammar rule: the module's own \<open>ParsingException\<close>,
  the interpreter's \<open>RecursionError\<close>, and the \<open>OverflowError\<close> of \<open>pow\<close>.\<close>

definition escapes :: "error \<Rightarrow> bool" where
  "escapes e = (e = ParsingException \<or> e = RecursionError \<or> e = OverflowError)"

text \<open>What a grammar rule may do on an input \<open>s\<close>: a match leaves a part of the input
  that is no longer than \<open>s\<close> (shorter, when \<open>strict\<close>) and returns tokens of the shape
  \<open>T\<close>; a rule may also fail to match; it may raise one of the three exceptions above
  and no other.\<close>

definition ok :: "string \<Rightarrow> bool \<Rightarrow> (node list \<Rightarrow> bool) \<Rightarrow> presult \<Rightarrow> bool" where
  "ok s strict T res =
     (case res of
        Match ts r \<Rightarrow> (if strict then length r < length s else length r \<le> length s) \<and> T ts
      | NoMatch \<Rightarrow> True
      | Raised e \<Rightarrow> escapes e)"

text \<open>A parse action maps tokens of the shape \<open>T\<close> to tokens of the shape \<open>T'\<close>, or
  raises one of the two exceptions that turn into a failed match, or one of the three
  that leave the rule.\<close>

definition action_ok :: "(node \<Rightarrow> error + node) \<Rightarrow> (node list \<Rightarrow> bool) \<Rightarrow> (node list \<Rightarrow> bool) \<Rightarrow> bool" where
  "action_ok fn T T' =
     (\<forall>ts. T ts \<longrightarrow>
        (case fn (ParseResults ts) of
           Inr v \<Rightarrow> T' (as_tokens v)
         | Inl e \<Rightarrow> e = ParseException \<or> e = IndexError \<or> escapes e))"

text \<open>Shapes of token lists: no token, one string, one number, one token, one token with
  a property, a group of tokens with a property.\<close>

fun is_PyStr :: "node \<Rightarrow> bool" where
  "is_PyStr (PyStr s) = True"
| "is_PyStr n = False"

fun is_PyFloat :: "node \<Rightarrow> bool" where
  "is_PyFloat (PyFloat f) = True"
| "is_PyFloat n = False"

definition no_tokens :: "node list \<Rightarrow> bool" where
  "no_tokens ts = (ts = [])"

definition one_str :: "node list \<Rightarrow> bool" where
  "one_str ts = (\<exists>t. ts = [PyStr t])"

definition one_float :: "node list \<Rightarrow> bool" where
  "one_float ts = (\<exists>f. ts = [PyFloat f])"

definition single :: "node list \<Rightarrow> bool" where
  "single ts = (\<exists>x. ts = [x])"

definition one_of :: "(node \<Rightarrow> bool) \<Rightarrow> node list \<Rightarrow> bool" where
  "one_of Q ts = (\<exists>x. ts = [x] \<and> Q x)"

definition group_of :: "(node \<Rightarrow> bool) \<Rightarrow> node \<Rightarrow> bool" where
  "group_of Q x = (\<exists>cs. x = ParseResults cs \<and> list_all Q cs)"

text \<open>The raw trees that the grammar builds. Inside an attention or a quoted fragment:
  fragments, attentions, groups, and the strings that \<open>nested_expr\<close> keeps for quoted
  text. A part of a prompt is such a tree or a substitution between two of them. A raw
  prompt holds parts, a raw branch is a prompt or a blend of prompts with as many
  weights, and the raw root is a conjunction of branches with as many weights.\<close>

fun att_child :: "node \<Rightarrow> bool" where
  "att_child (Fragment t w) = True"
| "att_child (Attention w cs) = list_all att_child cs"
| "att_child (ParseResults xs) = list_all att_child xs"
| "att_child (PyStr s) = True"
| "att_child n = False"

definition one_side :: "node list \<Rightarrow> bool" where
  "one_side ts = (\<exists>x. ts = [x] \<and> att_child x)"

definition one_group :: "node list \<Rightarrow> bool" where
  "one_group ts = (\<exists>cs. ts = [ParseResults cs] \<and> list_all att_child cs)"

definition attention_tokens :: "node list \<Rightarrow> bool" where
  "attention_tokens ts = (\<exists>x0 x1 cs. ts = [x0, x1] \<and> py_iter x1 = Inr cs \<and> list_all att_child cs)"

fun part_tok :: "node \<Rightarrow> bool" where
  "part_tok (CrossAttentionControlSubstitute a b) = (att_child a \<and> att_child b)"
| "part_tok n = att_child n"

definition raw_prompt :: "node \<Rightarrow> bool" where
  "raw_prompt x = (\<exists>cs. x = Prompt cs \<and> list_all part_tok cs)"

definition raw_branch :: "node \<Rightarrow> bool" where
  "raw_branch x = (raw_prompt x \<or>
     (\<exists>ps wts nw. x = Blend ps wts nw \<and> length ps = length wts \<and> list_all raw_prompt ps))"

definition raw_root :: "node \<Rightarrow> bool" where
  "raw_root x = (\<exists>ps wts. x = Conjunction ps wts \<and> length ps = length wts \<and>
     list_all raw_branch ps)"

definition blend_tokens :: "node list \<Rightarrow> bool" where
  "blend_tokens ts = (\<exists>ps wts. ts = [ParseResults ps, ParseResults wts] \<and>
     list_all raw_prompt ps \<and> list_all is_PyFloat wts)"

definition conjunction_tokens :: "node list \<Rightarrow> bool" where
  "conjunction_tokens ts = (\<exists>ps. list_all raw_prompt ps \<and>
     (ts = [ParseResults ps] \<or>
      (\<exists>wts. ts = [ParseResults ps, ParseResults wts] \<and> list_all is_PyFloat wts)))"

text \<open>What flattening a part of a prompt appends: fragments, and substitutions between two
  lists of fragments.\<close>

fun frag_item :: "node \<Rightarrow> bool" where
  "frag_item (Fragment t w) = True"
| "frag_item (CrossAttentionControlSubstitute (PyList xs) (PyList ys)) =
     (list_all is_Fragment xs \<and> list_all is_Fragment ys)"
| "frag_item n = False"

text \<open>The recursive rules at a depth written as a numeral.\<close>

lemma attention_with_parens_numeral:
  "attention_with_parens self (numeral k) s =
     set_parse_action (make_attention self)
       (And [attention_head, attention_with_parens_body self (pred_numeral k)]) s"
  by (simp add: numeral_eq_Suc)

lemma attention_with_parens_body_numeral:
  "attention_with_parens_body self (numeral k) s =
     Group (And [Suppress (ws (Literal ''('')),
                 ZeroOrMore (MatchFirst
                   [quoted_string,
                    attention_with_parens_body self (pred_numeral k),
                    delimited_list
                      (MatchFirst [attention_with_parens self (pred_numeral k),
                                   fragment_inside_attention])
                      SPACE_CHARS]),
                 Suppress (ws (Literal '')''))]) s"
  by (simp add: numeral_eq_Suc)

text \<open>The defining equations of the grammar, for evaluating it on a given input.\<close>

lemmas grammar_defs = is_BaseFragment_def Prompt_init_def FlattenedPrompt_init_def Blend_init_def
  force_prompt_def Conjunction_init_def fuse_item_def fuse_fragments_def string_whitespace_def
  nums_def printables_def default_whitespace_def py_isspace_def is_blank_def expandtabs_def
  digit_value_def digits_value_def skip_whitespace_def ws_def Literal_def Word_def CharsNotIn_def
  StringEnd_def Suppress_def Group_def Optional_def OneOrMore_def Combine_def
  set_parse_action_def Or_def parse_string_def is_digit_def float_of_decimal_def split_sign_def
  real_regex_def pyparsing_common_real_def to_float_def number_def unquote_def quoted_raw_def
  QuotedString_def is_hex_def quoted_regex_def dbl_quoted_string_def quoted_string_def
  delimited_list_def PromptParser_init_def default_parser_def lparen_def rparen_def quotes_def
  SPACE_CHARS_def make_attention_def attention_head_def fragment_inside_attention_def
  wrap_fragment_def attention_without_parens_def attention_def fragment_parser_def
  parse_fragment_str_def quoted_fragment_def unquoted_fragment_def paren_text_def
  parenthesized_fragment_def empty_string_def original_fragment_def edited_fragment_def
  make_cross_attention_substitute_def cross_attention_substitute_def prompt_part_def
  empty_prompt_def make_prompt_def prompt_def make_prompt_from_quoted_string_def
  quoted_prompt_def blend_terms_def blend_weights_def make_blend_def blend_def
  conjunction_terms_def conjunction_weights_def conjunction_with_parens_and_quotes_def
  make_conjunction_def make_implicit_conjunction_def implicit_conjunction_def conjunction_def
  parse_with_def parse_def Let_def ZeroOrMore.simps py_pow_def float_max_def
  attention_with_parens_numeral attention_with_parens_body_numeral

section \<open>Properties of the constructors and of the entry point\<close>

lemma force_prompts_id:
  "\<forall>p \<in> set ps. is_Prompt p \<or> is_Blend p \<or> is_FlattenedPrompt p \<Longrightarrow> force_prompts ps = Inr ps"
  by (induction ps) (auto simp: force_prompt_def)

lemma force_prompt_iterable:
  "is_Prompt x \<or> is_Blend x \<or> is_FlattenedPrompt x \<or> (\<exists>parts. py_iter x = Inr parts) \<Longrightarrow>
   force_prompt x = Inl ParsingException \<or> (\<exists>p. force_prompt x = Inr p)"
  by (cases x) (auto simp: force_prompt_def Prompt_init_def)

lemma force_prompts_iterable:
  "\<forall>x \<in> set ps. is_Prompt x \<or> is_Blend x \<or> is_FlattenedPrompt x
       \<or> (\<exists>parts. py_iter x = Inr parts) \<Longrightarrow>
   force_prompts ps = Inl ParsingException
     \<or> (\<exists>qs. force_prompts ps = Inr qs \<and> length qs = length ps)"
proof (induction ps)
  case Nil
  then show ?case by simp
next
  case (Cons x ps)
  then have "force_prompt x = Inl ParsingException \<or> (\<exists>p. force_prompt x = Inr p)"
    using force_prompt_iterable by simp
  moreover have "force_prompts ps = Inl ParsingException
      \<or> (\<exists>qs. force_prompts ps = Inr qs \<and> length qs = length ps)"
    using Cons by simp
  ultimately show ?case by auto
qed

lemma parse_with_blank:
  "is_blank s \<Longrightarrow> parse_with g s = Inr (Conjunction [FlattenedPrompt [Fragment [] 1]] [1])"
  by (simp add: parse_with_def FlattenedPrompt_init_def Conjunction_init_def force_prompt_def)

text \<open>
  Claim C7. The \<open>Blend\<close> constructor raises \<open>ParsingException\<close> whenever the numbers of
  prompts and weights differ or some prompt is neither a \<open>Prompt\<close> nor a
  \<open>FlattenedPrompt\<close>. The \<open>Conjunction\<close> constructor raises \<open>ParsingException\<close> when
  weights are given and their number differs from that of the prompts (for entries that
  are prompts, blends, flattened prompts or sequences, the entries \<open>Prompt(x)\<close> can
  iterate over). With the weights left out and every entry a \<open>Prompt\<close>, \<open>Blend\<close> or
  \<open>FlattenedPrompt\<close>, the conjunction is built with the weight \<open>1.0\<close> for every prompt.
\<close>

theorem constructors_validate_counts:
  "(length prompts \<noteq> length weights
      \<or> (\<exists>c \<in> set prompts. \<not> is_Prompt c \<and> \<not> is_FlattenedPrompt c)
      \<longrightarrow> Blend_init prompts weights nw = Inl ParsingException) \<and>
   ((\<forall>x \<in> set ps. is_Prompt x \<or> is_Blend x \<or> is_FlattenedPrompt x
          \<or> (\<exists>parts. py_iter x = Inr parts)) \<and>
      length given \<noteq> length ps \<longrightarrow> Conjunction_init ps (Some given) = Inl ParsingException) \<and>
   ((\<forall>x \<in> set ps. is_Prompt x \<or> is_Blend x \<or> is_FlattenedPrompt x) \<longrightarrow>
      Conjunction_init ps None = Inr (Conjunction ps (replicate (length ps) 1)))"
proof (intro conjI impI)
  assume "length prompts \<noteq> length weights
    \<or> (\<exists>c \<in> set prompts. \<not> is_Prompt c \<and> \<not> is_FlattenedPrompt c)"
  then show "Blend_init prompts weights nw = Inl ParsingException"
    by (auto simp: Blend_init_def)
next
  assume a: "(\<forall>x \<in> set ps. is_Prompt x \<or> is_Blend x \<or> is_FlattenedPrompt x
      \<or> (\<exists>parts. py_iter x = Inr parts)) \<and> length given \<noteq> length ps"
  then have "force_prompts ps = Inl ParsingException
      \<or> (\<exists>qs. force_prompts ps = Inr qs \<and> length qs = length ps)"
    using force_prompts_iterable by blast
  with a show "Conjunction_init ps (Some given) = Inl ParsingException"
    by (auto simp: Conjunction_init_def)
next
  assume "\<forall>x \<in> set ps. is_Prompt x \<or> is_Blend x \<or> is_FlattenedPrompt x"
  then show "Conjunction_init ps None = Inr (Conjunction ps (replicate (length ps) 1))"
    by (simp add: Conjunction_init_def force_prompts_id)
qed

theorem constructors_validate_counts_witness:
  "Blend_init [Prompt [Fragment ''fire'' 1], Prompt [Fragment ''flames'' 1]] [1] True
     = Inl ParsingException \<and>
   Blend_init [Fragment ''fire'' 1] [1] True = Inl ParsingException \<and>
   Conjunction_init [FlattenedPrompt [Fragment ''fire'' 1], FlattenedPrompt [Fragment ''flames'' 1]]
     (Some [2]) = Inl ParsingException \<and>
   Conjunction_init [FlattenedPrompt [Fragment ''fire'' 1], FlattenedPrompt [Fragment ''flames'' 1]]
     None
     = Inr (Conjunction [FlattenedPrompt [Fragment ''fire'' 1],
                         FlattenedPrompt [Fragment ''flames'' 1]] [1, 1])"
  using constructors_validate_counts
          [of "[Prompt [Fragment ''fire'' 1], Prompt [Fragment ''flames'' 1]]" "[1]" True
              "[FlattenedPrompt [Fragment ''fire'' 1], FlattenedPrompt [Fragment ''flames'' 1]]"
              "[2]"]
        constructors_validate_counts [of "[Fragment ''fire'' 1]" "[1]" True "[]" "[]"]
  by simp

text \<open>
  Claim C8. For every input that consists of whitespace only (the empty string
  included), \<open>parse\<close> returns \<open>Conjunction([FlattenedPrompt([Fragment("", 1.0)])],
  weights=[1.0])\<close>, and it does so whatever the grammar is: the grammar is not run.
\<close>

theorem parse_blank:
  "\<forall>c \<in> set s. py_isspace c \<Longrightarrow>
     parse_with g s = Inr (Conjunction [FlattenedPrompt [Fragment [] 1]] [1]) \<and>
     parse self s = Inr (Conjunction [FlattenedPrompt [Fragment [] 1]] [1])"
  by (simp add: parse_def parse_with_blank is_blank_def list_all_iff)

theorem parse_blank_witness:
  "is_blank ''   '' \<and>
   parse_with (\<lambda>s. Raised TypeError) ''   ''
     = Inr (Conjunction [FlattenedPrompt [Fragment [] 1]] [1]) \<and>
   parse default_parser [] = Inr (Conjunction [FlattenedPrompt [Fragment [] 1]] [1])"
  using parse_blank [of "''   ''" "\<lambda>s. Raised TypeError" default_parser]
        parse_blank [of "[]" "\<lambda>s. Raised TypeError" default_parser]
  by (simp add: py_isspace_def is_blank_def)

section \<open>Equality of nodes\<close>

text \<open>
  Claim C10. Equality of two nodes of the same type is meant to compare their fields.
  \<open>Fragment.__eq__\<close> does; \<open>Attention.__eq__\<close> reads \<open>other.fragment\<close>, an attribute that
  an \<open>Attention\<close> does not have (its fields are \<open>weight\<close> and \<open>children\<close>), so comparing
  two attentions of equal weight raises \<open>AttributeError\<close> instead of giving an answer.
\<close>

theorem Attention_eq_raises:
  "Attention_eq (Attention w children) (Attention w children') = Inl AttributeError \<and>
   Fragment_eq (Fragment t w) (Fragment t w) = Inr True"
  by (simp add: Attention_eq_def Fragment_eq_def)


section \<open>Properties of flattening\<close>

lemma flatten_attention_tree:
  "attention_tree n \<Longrightarrow>
      flatten_internal n scale rs = Inr (rs @ map (resolved scale) (leaves_in_scope n))"
  and flatten_each_attention_trees:
  "list_all attention_tree ns \<Longrightarrow>
      flatten_each ns scale' rs' = Inr (rs' @ map (resolved scale') (concat (map leaves_in_scope ns)))"
proof (induction n scale rs and ns scale' rs' rule: flatten_internal_flatten_each.induct)
  case (2 weight children weight_scale results)
  then show ?case
    by (simp add: resolved_def comp_def case_prod_unfold mult.assoc)
qed (simp_all add: resolved_def split: sum.splits)


lemma fuse_loop_same_weight:
  "fuse_loop (rs @ [Fragment t w]) (Fragment t' w # items)
     = fuse_loop (rs @ [Fragment (t @ '' '' @ t') w]) items"
  by (simp add: fuse_item_def)

lemma fuse_loop_other_weight:
  "w \<noteq> w' \<Longrightarrow> fuse_loop (rs @ [Fragment t w]) (Fragment t' w' # items)
     = fuse_loop (rs @ [Fragment t w, Fragment t' w']) items"
  by (simp add: fuse_item_def)

lemma fuse_loop_first:
  "fuse_loop [] (Fragment t w # items) = fuse_loop [Fragment t w] items"
  by (simp add: fuse_item_def)

lemma fuse_loop_substitute:
  "fuse_side a = Inr fa \<Longrightarrow> fuse_side b = Inr fb \<Longrightarrow>
   fuse_loop rs (CrossAttentionControlSubstitute a b # items)
     = fuse_loop (rs @ [CrossAttentionControlSubstitute (PyList fa) (PyList fb)]) items"
  by simp

lemma fuse_loop_after_substitute:
  "fuse_loop (rs @ [CrossAttentionControlSubstitute a b]) (Fragment t w # items)
     = fuse_loop (rs @ [CrossAttentionControlSubstitute a b, Fragment t w]) items"
  by (simp add: fuse_item_def)

lemma fuse_loop_distinct:
  "list_all is_Fragment (rs @ items) \<Longrightarrow> distinct_adj (map attr_weight (rs @ items)) \<Longrightarrow>
   fuse_loop rs items = Inr (rs @ items)"
proof (induction items arbitrary: rs)
  case Nil
  then show ?case by simp
next
  case (Cons x items)
  from Cons.prems obtain t w where x: "x = Fragment t w"
    by (cases x) auto
  have step: "fuse_item rs x = Inr (rs @ [x])"
  proof (cases "rs = []")
    case True
    then show ?thesis by (simp add: fuse_item_def x)
  next
    case False
    then have "is_Fragment (last rs)"
      using Cons.prems(1) by (simp add: list_all_iff)
    then obtain t' w' where l: "last rs = Fragment t' w'"
      by (cases "last rs") auto
    have "attr_weight (last rs) \<noteq> attr_weight x"
      using Cons.prems(2) False by (simp add: distinct_adj_append_iff last_map)
    then show ?thesis using False l by (simp add: fuse_item_def x)
  qed
  have "fuse_loop (rs @ [x]) items = Inr ((rs @ [x]) @ items)"
    using Cons.prems by (intro Cons.IH) simp_all
  then show ?case using step by (simp add: x)
qed

lemma flatten_each_fragments:
  "list_all is_Fragment fs \<Longrightarrow> flatten_each fs 1 rs = Inr (rs @ fs)"
proof (induction fs arbitrary: rs)
  case Nil
  then show ?case by simp
next
  case (Cons f fs)
  then obtain t w where "f = Fragment t w" by (cases f) auto
  then show ?case using Cons by simp
qed

lemma convert_parts_fragments:
  "list_all (\<lambda>c. is_Fragment c \<or> is_Substitute c) xs \<Longrightarrow> convert_parts xs = Inr xs"
proof (induction xs)
  case Nil
  then show ?case by simp
next
  case (Cons x xs)
  then have "convert_part x = Inr x"
    by (cases x) (auto simp: is_BaseFragment_def)
  then show ?case using Cons by simp
qed

lemma flatten_prompt_of_fragments:
  assumes "list_all is_Fragment fs" and "distinct_adj (map attr_weight fs)"
  shows "flatten_internal (Prompt fs) 1 rs = Inr (rs @ [FlattenedPrompt fs])"
proof -
  have "fuse_fragments fs = Inr fs"
    using fuse_loop_distinct [of "[]" fs] assms by (simp add: fuse_fragments_def)
  moreover have "convert_parts fs = Inr fs"
    using assms(1) by (intro convert_parts_fragments) (simp add: list_all_iff)
  ultimately show ?thesis
    using assms(1) by (simp add: flatten_each_fragments FlattenedPrompt_init_def)
qed

lemma flatten_parts_prompts_of_fragments:
  "\<forall>fs \<in> set fss. list_all is_Fragment fs \<and> distinct_adj (map attr_weight fs) \<Longrightarrow>
   flatten_parts (map Prompt fss) = Inr (map FlattenedPrompt fss)"
  by (induction fss) (simp_all add: flatten_prompt_of_fragments del: flatten_internal.simps)

lemma flatten_conjunction_of_fragments:
  assumes "\<forall>fs \<in> set fss. list_all is_Fragment fs \<and> distinct_adj (map attr_weight fs)"
    and "length wts = length fss"
  shows "flatten (Conjunction (map Prompt fss) wts) = Inr (Conjunction (map FlattenedPrompt fss) wts)"
proof -
  have "force_prompts (map FlattenedPrompt fss) = Inr (map FlattenedPrompt fss)"
    by (intro force_prompts_id) auto
  then show ?thesis
    using assms by (simp add: flatten_parts_prompts_of_fragments Conjunction_init_def)
qed

lemma flatten_flattened_prompt_raises:
  "flatten_internal (FlattenedPrompt cs) scale rs = Inl ParsingException"
  "flatten (Conjunction (FlattenedPrompt cs # ps) wts) = Inl ParsingException"
  by simp_all


lemma flat_substitute:
  "flat_value (CrossAttentionControlSubstitute a b) \<Longrightarrow>
   \<exists>xs ys. a = PyList xs \<and> b = PyList ys \<and> list_all flat_value xs \<and> list_all flat_value ys"
  by (cases a; cases b) simp_all

lemma list_all_butlast: "list_all P xs \<Longrightarrow> list_all P (butlast xs)"
  by (auto simp: list_all_iff dest: in_set_butlastD)

lemma fuse_item_fusable:
  assumes "fuse_item rs x = Inr out" and "list_all fusable rs"
  shows "list_all fusable out"
proof -
  from assms(1) obtain t w where x: "x = Fragment t w"
    by (cases x) (auto simp: fuse_item_def split: sum.splits)
  from assms(1) have "out = rs @ [x] \<or> (\<exists>t'. out = butlast rs @ [Fragment t' w])"
    by (auto simp: fuse_item_def x split: sum.splits if_splits)
  then show ?thesis
    using assms(2) list_all_butlast [of fusable rs] by (auto simp: x fusable_def)
qed

lemma fuse_loop_fusable:
  "fuse_loop rs items = Inr out \<Longrightarrow> list_all fusable rs \<Longrightarrow> list_all flat_value items \<Longrightarrow>
     list_all fusable out"
  and fuse_side_fusable:
  "fuse_side n = Inr out' \<Longrightarrow> (\<exists>xs. n = PyList xs \<and> list_all flat_value xs) \<Longrightarrow>
     list_all fusable out'"
proof (induction rs items and n arbitrary: out and out' rule: fuse_loop_fuse_side.induct)
  case (2 result original edited items)
  from "2.prems"(3) obtain xs ys where f: "original = PyList xs" "edited = PyList ys"
      "list_all flat_value xs" "list_all flat_value ys"
    using flat_substitute [of original edited] by auto
  from "2.prems"(1) obtain fo fe where r: "fuse_side original = Inr fo" "fuse_side edited = Inr fe"
      "fuse_loop (result @ [CrossAttentionControlSubstitute (PyList fo) (PyList fe)]) items = Inr out"
    by (auto split: sum.splits)
  have fo: "list_all fusable fo" using "2.IH"(1) [OF r(1)] f by blast
  have fe: "list_all fusable fe" using "2.IH"(2) [OF r(1) r(2)] f by blast
  have "fusable (CrossAttentionControlSubstitute (PyList fo) (PyList fe))"
    using fo fe by (simp add: fusable_def list_all_iff)
  then show ?case
    using "2.IH"(3) [OF r(1) r(2) r(3)] "2.prems" by simp
qed (auto split: sum.splits dest: fuse_item_fusable)


lemma fusable_flat: "list_all fusable xs \<Longrightarrow> list_all flat_value xs"
  by (simp add: fusable_def list_all_iff)

lemma flattened_prompt_flat:
  assumes "fuse_fragments fp = Inr fused" and "list_all flat_value fp"
    and "FlattenedPrompt_init fused = Inr p"
  shows "flat_value p"
proof -
  have f: "list_all fusable fused"
    using fuse_loop_fusable [of "[]" fp fused] assms(1,2) by (simp add: fuse_fragments_def)
  then have "convert_parts fused = Inr fused"
    by (intro convert_parts_fragments) (simp add: fusable_def list_all_iff)
  then have "p = FlattenedPrompt fused"
    using assms(3) by (simp add: FlattenedPrompt_init_def)
  then show ?thesis using f by (simp add: fusable_def list_all_iff)
qed

lemma blend_flat:
  assumes "Blend_init subs wts nw = Inr b" and "list_all flat_value subs"
  shows "flat_value b"
proof -
  from assms(1) have b: "b = Blend subs wts nw"
    and t: "\<forall>c \<in> set subs. is_Prompt c \<or> is_FlattenedPrompt c"
    by (auto simp: Blend_init_def split: if_splits)
  have "\<forall>c \<in> set subs. is_FlattenedPrompt c"
  proof
    fix c assume c: "c \<in> set subs"
    then have "flat_value c" using assms(2) by (simp add: list_all_iff)
    then show "is_FlattenedPrompt c" using t c by (cases c) auto
  qed
  then show ?thesis using assms(2) by (simp add: b list_all_iff)
qed

lemma flatten_internal_flat:
  "flatten_internal n scale rs = Inr out \<Longrightarrow> list_all flat_value rs \<Longrightarrow> list_all flat_value out"
  and flatten_each_flat:
  "flatten_each ns scale' rs' = Inr out' \<Longrightarrow> list_all flat_value rs' \<Longrightarrow> list_all flat_value out'"
proof (induction n scale rs and ns scale' rs' arbitrary: out and out'
       rule: flatten_internal_flatten_each.induct)
  case (4 original edited weight_scale results)
  from "4.prems"(1) obtain orig edit where r: "flatten_internal original weight_scale [] = Inr orig"
      "flatten_internal edited weight_scale [] = Inr edit"
      "out = results @ [CrossAttentionControlSubstitute (PyList orig) (PyList edit)]"
    by (auto split: sum.splits)
  have "list_all flat_value orig" using "4.IH"(1) [OF r(1)] by simp
  moreover have "list_all flat_value edit" using "4.IH"(2) [OF r(1) r(2)] by simp
  ultimately show ?case using "4.prems"(2) r(3) by simp
next
  case (5 prompts weights normalize_weights weight_scale results)
  from "5.prems"(1) obtain subs b where r: "flatten_each prompts weight_scale [] = Inr subs"
      "Blend_init subs weights True = Inr b" "out = results @ [b]"
    by (auto split: sum.splits)
  have "list_all flat_value subs" using "5.IH" [OF r(1)] by simp
  then have "flat_value b" using blend_flat r(2) by blast
  then show ?case using "5.prems"(2) r(3) by simp
next
  case (6 children weight_scale results)
  from "6.prems"(1) obtain fp fused p where r: "flatten_each children weight_scale [] = Inr fp"
      "fuse_fragments fp = Inr fused" "FlattenedPrompt_init fused = Inr p" "out = results @ [p]"
    by (auto split: sum.splits)
  have "list_all flat_value fp" using "6.IH" [OF r(1)] by simp
  then have "flat_value p" using flattened_prompt_flat r(2,3) by blast
  then show ?case using "6.prems"(2) r(4) by simp
qed (auto split: sum.splits)

lemma flatten_parts_flat:
  "flatten_parts ps = Inr fl \<Longrightarrow> list_all flat_value fl"
proof (induction ps arbitrary: fl)
  case Nil
  then show ?case by simp
next
  case (Cons p ps)
  from Cons.prems obtain fs rest where r: "flatten_internal p 1 [] = Inr fs"
      "flatten_parts ps = Inr rest" "fl = fs @ rest"
    by (auto split: sum.splits)
  have "list_all flat_value fs" using flatten_internal_flat [OF r(1)] by simp
  then show ?case using Cons.IH [OF r(2)] r(3) by simp
qed

lemma force_prompts_flat:
  "force_prompts fl = Inr qs \<Longrightarrow> list_all flat_value fl \<Longrightarrow>
   qs = fl \<and> (\<forall>p \<in> set fl. is_FlattenedPrompt p \<or> is_Blend p)"
proof (induction fl arbitrary: qs)
  case Nil
  then show ?case by simp
next
  case (Cons x fl)
  from Cons.prems(1) obtain q qs' where r: "force_prompt x = Inr q" "force_prompts fl = Inr qs'"
      "qs = q # qs'"
    by (auto split: sum.splits)
  have "flat_value x" using Cons.prems(2) by simp
  then have "q = x \<and> (is_FlattenedPrompt x \<or> is_Blend x)"
    using r(1) by (cases x) (auto simp: force_prompt_def)
  then show ?case using Cons.IH [OF r(2)] Cons.prems(2) r(3) by simp
qed

lemma flat_no_attention: "flat_value n \<Longrightarrow> no_attention n"
  by (induction n rule: flat_value.induct) (auto simp: list_all_iff)

lemma flatten_result_flat:
  assumes "flatten root0 = Inr r"
  shows "\<exists>ps wts. r = Conjunction ps wts
           \<and> list_all (\<lambda>p. (is_FlattenedPrompt p \<or> is_Blend p) \<and> flat_value p) ps"
proof -
  from assms obtain prompts weights fl where r: "root0 = Conjunction prompts weights"
      "flatten_parts prompts = Inr fl" "Conjunction_init fl (Some weights) = Inr r"
    by (cases root0) (auto split: sum.splits)
  have flat: "list_all flat_value fl" using flatten_parts_flat r(2) by blast
  from r(3) obtain qs where q: "force_prompts fl = Inr qs" "r = Conjunction qs weights"
    by (auto simp: Conjunction_init_def Let_def split: sum.splits if_splits)
  then show ?thesis using force_prompts_flat [OF q(1) flat] flat by (auto simp: list_all_iff)
qed


text \<open>
  Claim C2. Attention weights compose multiplicatively with the enclosing scope: in a
  tree of attentions, flattening under a weight scale turns every leaf fragment into a
  fragment whose weight is its own weight times the scale times the weights of all
  enclosing \<open>Attention\<close> nodes, in order. In particular
  \<open>parse("fire 2.0(flames 1.5(trees))")\<close> has the single flattened prompt
  \<open>[Fragment("fire",1.0), Fragment("flames",2.0), Fragment("trees",3.0)]\<close>.
\<close>

theorem attention_weights_multiply:
  "(attention_tree n \<longrightarrow>
      flatten_internal n weight_scale results
        = Inr (results @ map (resolved weight_scale) (leaves_in_scope n))) \<and>
   resolved weight_scale (t, w, scope) = Fragment t (w * (weight_scale * prod_list scope)) \<and>
   parse default_parser ''fire 2.0(flames 1.5(trees))''
     = Inr (Conjunction [FlattenedPrompt [Fragment ''fire'' 1, Fragment ''flames'' 2,
                                          Fragment ''trees'' 3]] [1])"
proof (intro conjI impI)
  assume "attention_tree n"
  then show "flatten_internal n weight_scale results
      = Inr (results @ map (resolved weight_scale) (leaves_in_scope n))"
    by (rule flatten_attention_tree)
next
  show "resolved weight_scale (t, w, scope) = Fragment t (w * (weight_scale * prod_list scope))"
    by (simp add: resolved_def)
next
  show "parse default_parser ''fire 2.0(flames 1.5(trees))''
     = Inr (Conjunction [FlattenedPrompt [Fragment ''fire'' 1, Fragment ''flames'' 2,
                                          Fragment ''trees'' 3]] [1])"
    by (simp add: grammar_defs)
qed

theorem attention_weights_multiply_witness:
  "attention_tree (Attention 2 [Fragment ''flames'' 1, Attention (3 / 2) [Fragment ''trees'' 1]]) \<and>
   flatten_internal (Attention 2 [Fragment ''flames'' 1, Attention (3 / 2) [Fragment ''trees'' 1]])
       1 [Fragment ''fire'' 1]
     = Inr [Fragment ''fire'' 1, Fragment ''flames'' 2, Fragment ''trees'' 3]"
  using attention_weights_multiply
    [of "Attention 2 [Fragment ''flames'' 1, Attention (3 / 2) [Fragment ''trees'' 1]]" 1
        "[Fragment ''fire'' 1]"]
  by (simp add: resolved_def)

text \<open>
  Claim C3. In the fusing loop over one flattening buffer, an item that is a plain
  fragment with the weight of the last result (itself a plain fragment) replaces it by
  one fragment with the previous text, a single space and the current text, at the same
  weight; with a different weight it is appended. A substitution is appended as it is
  (its sides fused on their own) whatever precedes it, and a fragment after a
  substitution is appended, not merged: fusion starts again after it. In particular
  \<open>parse("fire flames")\<close> yields the single fragment \<open>Fragment("fire flames", 1.0)\<close>.
\<close>

theorem fusion_rule:
  "fuse_loop (rs @ [Fragment t w]) (Fragment t' w # items)
     = fuse_loop (rs @ [Fragment (t @ '' '' @ t') w]) items \<and>
   (w \<noteq> w' \<longrightarrow> fuse_loop (rs @ [Fragment t w]) (Fragment t' w' # items)
     = fuse_loop (rs @ [Fragment t w, Fragment t' w']) items) \<and>
   fuse_loop [] (Fragment t w # items) = fuse_loop [Fragment t w] items \<and>
   (fuse_side a = Inr fa \<and> fuse_side b = Inr fb \<longrightarrow>
      fuse_loop rs (CrossAttentionControlSubstitute a b # items)
        = fuse_loop (rs @ [CrossAttentionControlSubstitute (PyList fa) (PyList fb)]) items) \<and>
   fuse_loop (rs @ [CrossAttentionControlSubstitute a b]) (Fragment t w # items)
     = fuse_loop (rs @ [CrossAttentionControlSubstitute a b, Fragment t w]) items \<and>
   parse default_parser ''fire flames''
     = Inr (Conjunction [FlattenedPrompt [Fragment ''fire flames'' 1]] [1])"
proof (intro conjI impI)
  show "parse default_parser ''fire flames''
     = Inr (Conjunction [FlattenedPrompt [Fragment ''fire flames'' 1]] [1])"
    by (simp add: grammar_defs)
qed (simp_all add: fuse_loop_same_weight fuse_loop_other_weight fuse_loop_first
       fuse_loop_substitute fuse_loop_after_substitute del: fuse_loop.simps)

theorem fusion_rule_witness:
  "fuse_fragments [Fragment ''a'' 1, Fragment ''b'' 1, Fragment ''c'' 2,
       CrossAttentionControlSubstitute (PyList [Fragment ''d'' 2, Fragment ''e'' 2])
                                       (PyList [Fragment ''f'' 2]),
       Fragment ''g'' 2, Fragment ''h'' 2]
     = Inr [Fragment ''a b'' 1, Fragment ''c'' 2,
            CrossAttentionControlSubstitute (PyList [Fragment ''d e'' 2]) (PyList [Fragment ''f'' 2]),
            Fragment ''g h'' 2]"
proof -
  have sides: "fuse_side (PyList [Fragment ''d'' 2, Fragment ''e'' 2]) = Inr [Fragment ''d e'' 2]"
      "fuse_side (PyList [Fragment ''f'' 2]) = Inr [Fragment ''f'' 2]"
    by (simp_all add: fuse_item_def)
  have ne: "(1::real) \<noteq> 2" by simp
  note r = fusion_rule [of "[]" "''a''" 1 "''b''" _ 2 "PyList [Fragment ''d'' 2, Fragment ''e'' 2]"
                           "[Fragment ''d e'' 2]" "PyList [Fragment ''f'' 2]" "[Fragment ''f'' 2]"]
  have "fuse_loop [Fragment ''a'' 1] (Fragment ''b'' 1 # Fragment ''c'' 2 #
          CrossAttentionControlSubstitute (PyList [Fragment ''d'' 2, Fragment ''e'' 2])
                                          (PyList [Fragment ''f'' 2]) #
          [Fragment ''g'' 2, Fragment ''h'' 2])
        = fuse_loop [Fragment ''a b'' 1] (Fragment ''c'' 2 #
          CrossAttentionControlSubstitute (PyList [Fragment ''d'' 2, Fragment ''e'' 2])
                                          (PyList [Fragment ''f'' 2]) #
          [Fragment ''g'' 2, Fragment ''h'' 2])"
    using r by simp
  then show ?thesis
    by (simp add: fuse_fragments_def fuse_item_def)
qed

text \<open>
  Claim C4. Every conjunction that \<open>parse\<close> returns has only \<open>FlattenedPrompt\<close> and
  \<open>Blend\<close> branches, every child of a \<open>FlattenedPrompt\<close> (also inside a blend) is a
  \<open>Fragment\<close> or a \<open>CrossAttentionControlSubstitute\<close>, and no \<open>Attention\<close> node occurs
  anywhere in the result.
\<close>

theorem parse_result_flat:
  assumes "parse self s = Inr r"
  shows "\<exists>ps wts. r = Conjunction ps wts
           \<and> list_all (\<lambda>p. (is_FlattenedPrompt p \<or> is_Blend p) \<and> flat_value p) ps
           \<and> no_attention r"
proof -
  have "\<exists>ps wts. r = Conjunction ps wts
           \<and> list_all (\<lambda>p. (is_FlattenedPrompt p \<or> is_Blend p) \<and> flat_value p) ps"
  proof (cases "is_blank s")
    case True
    then have "r = Conjunction [FlattenedPrompt [Fragment [] 1]] [1]"
      using assms by (simp add: parse_def parse_with_blank)
    then show ?thesis by simp
  next
    case False
    then obtain root0 where "flatten root0 = Inr r"
      using assms by (auto simp: parse_def parse_with_def split: sum.splits)
    then show ?thesis by (rule flatten_result_flat)
  qed
  then obtain ps wts where r: "r = Conjunction ps wts"
      "list_all (\<lambda>p. (is_FlattenedPrompt p \<or> is_Blend p) \<and> flat_value p) ps"
    by blast
  then have "no_attention r"
    by (auto simp: list_all_iff intro: flat_no_attention)
  then show ?thesis using r by blast
qed

theorem parse_result_flat_witness:
  "parse default_parser ''fire 2.0(flames 1.5(trees))''
     = Inr (Conjunction [FlattenedPrompt [Fragment ''fire'' 1, Fragment ''flames'' 2,
                                          Fragment ''trees'' 3]] [1]) \<and>
   no_attention (Conjunction [FlattenedPrompt [Fragment ''fire'' 1, Fragment ''flames'' 2,
                                               Fragment ''trees'' 3]] [1])"
proof -
  have p: "parse default_parser ''fire 2.0(flames 1.5(trees))''
     = Inr (Conjunction [FlattenedPrompt [Fragment ''fire'' 1, Fragment ''flames'' 2,
                                          Fragment ''trees'' 3]] [1])"
    by (simp add: grammar_defs)
  show ?thesis using parse_result_flat [OF p] p by blast
qed

text \<open>
  Claim C6. A \<open>CrossAttentionControlSubstitute\<close> is flattened to one substitution node
  that wraps its two sides, each flattened on its own from an empty buffer under the
  current weight scale; the parse action of the swap construct builds the node from the
  original and the edited token. In particular \<open>parse('fire "flames".swap(trees)')\<close> has
  one flattened prompt with the children \<open>Fragment("fire",1.0)\<close> and
  \<open>CrossAttentionControlSubstitute([Fragment("flames",1.0)], [Fragment("trees",1.0)])\<close>.
\<close>

theorem swap_gives_one_substitute:
  "(flatten_internal original weight_scale [] = Inr orig \<and>
    flatten_internal edited weight_scale [] = Inr edit \<longrightarrow>
      flatten_internal (CrossAttentionControlSubstitute original edited) weight_scale results
        = Inr (results @ [CrossAttentionControlSubstitute (PyList orig) (PyList edit)])) \<and>
   (attention_tree original \<and> attention_tree edited \<longrightarrow>
      flatten_internal (CrossAttentionControlSubstitute original edited) weight_scale results
        = Inr (results @ [CrossAttentionControlSubstitute
             (PyList (map (resolved weight_scale) (leaves_in_scope original)))
             (PyList (map (resolved weight_scale) (leaves_in_scope edited)))])) \<and>
   make_cross_attention_substitute (ParseResults [x0, x1])
     = Inr (CrossAttentionControlSubstitute x0 x1) \<and>
   parse default_parser (''fire '' @ [CHR 0x22] @ ''flames'' @ [CHR 0x22] @ ''.swap(trees)'')
     = Inr (Conjunction [FlattenedPrompt [Fragment ''fire'' 1,
              CrossAttentionControlSubstitute (PyList [Fragment ''flames'' 1])
                                              (PyList [Fragment ''trees'' 1])]] [1])"
proof (intro conjI impI)
  show "parse default_parser (''fire '' @ [CHR 0x22] @ ''flames'' @ [CHR 0x22] @ ''.swap(trees)'')
     = Inr (Conjunction [FlattenedPrompt [Fragment ''fire'' 1,
              CrossAttentionControlSubstitute (PyList [Fragment ''flames'' 1])
                                              (PyList [Fragment ''trees'' 1])]] [1])"
    by (simp add: grammar_defs)
next
  assume "attention_tree original \<and> attention_tree edited"
  then show "flatten_internal (CrossAttentionControlSubstitute original edited) weight_scale results
        = Inr (results @ [CrossAttentionControlSubstitute
             (PyList (map (resolved weight_scale) (leaves_in_scope original)))
             (PyList (map (resolved weight_scale) (leaves_in_scope edited)))])"
    by (simp add: flatten_attention_tree)
qed (simp_all add: make_cross_attention_substitute_def)

theorem swap_gives_one_substitute_witness:
  "flatten_internal
     (CrossAttentionControlSubstitute
        (ParseResults [Attention (1 / 2) [Fragment ''fire'' 1, Attention (1 / 2) [Fragment ''flames'' 1]]])
        (ParseResults [Attention (7 / 10) [Fragment ''trees'' 1], Fragment ''houses'' 1]))
     1 [Fragment ''a'' 1]
   = Inr [Fragment ''a'' 1,
          CrossAttentionControlSubstitute
            (PyList [Fragment ''fire'' (1 / 2), Fragment ''flames'' (1 / 4)])
            (PyList [Fragment ''trees'' (7 / 10), Fragment ''houses'' 1])]"
  using swap_gives_one_substitute
    [of "ParseResults [Attention (1 / 2) [Fragment ''fire'' 1, Attention (1 / 2) [Fragment ''flames'' 1]]]"
        1 _ "ParseResults [Attention (7 / 10) [Fragment ''trees'' 1], Fragment ''houses'' 1]" _
        "[Fragment ''a'' 1]"]
  by (simp add: resolved_def)

text \<open>
  Claim C9, as stated: flattening a tree without \<open>Attention\<close> nodes returns an equal
  tree. It does not: a tree that is already flat has \<open>FlattenedPrompt\<close> branches, which
  \<open>flatten_internal\<close> refuses in its last branch.
\<close>

theorem flatten_already_flat_raises:
  "no_attention (Conjunction [FlattenedPrompt [Fragment ''fire flames'' 1]] [1]) \<and>
   flatten (Conjunction [FlattenedPrompt [Fragment ''fire flames'' 1]] [1]) = Inl ParsingException"
  by simp

text \<open>
  Claim C9, amended. Flattening with weight scale \<open>1.0\<close> keeps the content of a tree
  without attentions: a conjunction of prompts whose children are plain fragments, no
  two neighbours of equal weight, comes back with the same fragments (texts and weights)
  and the same conjunction weights, every \<open>Prompt\<close> turned into a \<open>FlattenedPrompt\<close>. A
  tree that is already flattened is not returned: a \<open>FlattenedPrompt\<close> makes
  \<open>flatten_internal\<close> raise \<open>ParsingException\<close>.
\<close>

theorem flatten_keeps_plain_fragments:
  "((\<forall>fs \<in> set fss. list_all is_Fragment fs \<and> distinct_adj (map attr_weight fs)) \<and>
      length wts = length fss \<longrightarrow>
      flatten (Conjunction (map Prompt fss) wts)
        = Inr (Conjunction (map FlattenedPrompt fss) wts)) \<and>
   flatten_internal (FlattenedPrompt cs) weight_scale results = Inl ParsingException \<and>
   flatten (Conjunction (FlattenedPrompt cs # ps) wts') = Inl ParsingException"
  using flatten_conjunction_of_fragments [of fss wts] by simp

theorem flatten_keeps_plain_fragments_witness:
  "flatten (Conjunction [Prompt [Fragment ''fire'' 1, Fragment ''flames'' 2]] [1])
     = Inr (Conjunction [FlattenedPrompt [Fragment ''fire'' 1, Fragment ''flames'' 2]] [1])"
  using flatten_keeps_plain_fragments [of "[[Fragment ''fire'' 1, Fragment ''flames'' 2]]" "[1]"]
  by simp


section \<open>Properties of the attention rules\<close>

lemma takeWhile_run:
  "P c \<Longrightarrow> xs = [] \<or> \<not> P (hd xs) \<Longrightarrow> takeWhile P (replicate k c @ xs) = replicate k c"
  by (induction k) (cases xs; simp)+

lemma dropWhile_run:
  "P c \<Longrightarrow> xs = [] \<or> \<not> P (hd xs) \<Longrightarrow> dropWhile P (replicate k c @ xs) = xs"
  by (induction k) (cases xs; simp)+

lemma takeWhile_word:
  "\<forall>c \<in> set word. P c \<Longrightarrow> rest = [] \<or> \<not> P (hd rest) \<Longrightarrow> takeWhile P (word @ rest) = word"
  by (cases rest) simp_all

lemma dropWhile_word:
  "\<forall>c \<in> set word. P c \<Longrightarrow> rest = [] \<or> \<not> P (hd rest) \<Longrightarrow> dropWhile P (word @ rest) = rest"
  by (cases rest) simp_all

lemma plus_power_overflows: "float_max < (11 / 10 :: real) ^ 7448"
  and plus_power_in_range: "(11 / 10 :: real) ^ 7447 \<le> float_max"
proof -
  have e8: "(11 / 10 :: real) ^ 8 = 214358881 / 100000000" by (simp add: power_divide)
  have m56: "(8::nat) * 7 = 56" and m392: "(56::nat) * 7 = 392" and m7448: "(392::nat) * 19 = 7448"
    by simp_all
  have p56: "(11 / 10 :: real) ^ 56 = (214358881 / 100000000) ^ 7"
    using power_mult [of "11 / 10 :: real" 8 7] by (simp only: m56 e8)
  have p392: "(11 / 10 :: real) ^ 392 = ((11 / 10) ^ 56) ^ 7"
    using power_mult [of "11 / 10 :: real" 56 7] by (simp only: m392)
  have p7448: "(11 / 10 :: real) ^ 7448 = ((11 / 10) ^ 392) ^ 19"
    using power_mult [of "11 / 10 :: real" 392 19] by (simp only: m7448)
  have l56: "(20796505671840 / 100000000000 :: real) \<le> (11 / 10) ^ 56"
    unfolding p56 by (simp add: power_divide)
  have u56: "(11 / 10 :: real) ^ 56 \<le> 20796505671841 / 100000000000"
    unfolding p56 by (simp add: power_divide)
  have "(16824128703824000 :: real) \<le> (20796505671840 / 100000000000) ^ 7"
    by (simp add: power_divide)
  also have "\<dots> \<le> ((11 / 10) ^ 56) ^ 7" using l56 by (rule power_mono) simp
  finally have l392: "(16824128703824000 :: real) \<le> (11 / 10) ^ 392" by (simp only: p392)
  have "((11 / 10 :: real) ^ 56) ^ 7 \<le> (20796505671841 / 100000000000) ^ 7"
    using u56 by (rule power_mono) simp
  also have "\<dots> \<le> 16824128703830000" by (simp add: power_divide)
  finally have u392: "(11 / 10 :: real) ^ 392 \<le> 16824128703830000" by (simp only: p392)
  have "float_max < (16824128703824000 :: real) ^ 19" by (simp add: float_max_def)
  also have "\<dots> \<le> ((11 / 10) ^ 392) ^ 19" using l392 by (rule power_mono) simp
  finally show "float_max < (11 / 10 :: real) ^ 7448" by (simp only: p7448)
  have "((11 / 10 :: real) ^ 392) ^ 19 \<le> (16824128703830000 :: real) ^ 19"
    using u392 by (rule power_mono) simp
  then have u7448: "(11 / 10 :: real) ^ 7448 \<le> (16824128703830000 :: real) ^ 19"
    by (simp only: p7448)
  have f: "(16824128703830000 :: real) ^ 19 \<le> (11 / 10) * float_max"
    by (simp add: float_max_def)
  have "(11 / 10 :: real) ^ 7448 = (11 / 10) * (11 / 10) ^ 7447"
    using power_Suc [of "11 / 10 :: real" 7447] by simp
  then have "(11 / 10) * (11 / 10 :: real) ^ 7447 \<le> (11 / 10) * float_max"
    using u7448 f by simp
  then show "(11 / 10 :: real) ^ 7447 \<le> float_max" by simp
qed

lemma plus_power_small: "k \<le> 7447 \<Longrightarrow> \<bar>(11 / 10 :: real) ^ k\<bar> \<le> float_max"
proof -
  assume "k \<le> 7447"
  then have "(11 / 10 :: real) ^ k \<le> (11 / 10) ^ 7447" by (intro power_increasing) simp_all
  then have "(11 / 10 :: real) ^ k \<le> float_max" using plus_power_in_range by (rule order_trans)
  then show ?thesis by simp
qed

lemma minus_power_small: "\<bar>(9 / 10 :: real) ^ k\<bar> \<le> float_max"
proof -
  have "(9 / 10 :: real) ^ k \<le> 1" by (intro power_le_one) simp_all
  moreover have "(1 :: real) \<le> float_max" by (simp add: float_max_def)
  ultimately show ?thesis by simp
qed

lemma make_attention_signs:
  assumes "0 < k" and "c = CHR ''+'' \<or> c = CHR ''-''"
  shows "make_attention self (ParseResults [PyStr (replicate k c), PyList children])
     = (case py_pow (if c = CHR ''+'' then attention_plus_base self
                     else attention_minus_base self) k of
          Inl e \<Rightarrow> Inl e
        | Inr weight \<Rightarrow> Inr (Attention weight children))"
proof -
  from assms(1) obtain j where "k = Suc j" by (cases k) auto
  then show ?thesis by (simp add: make_attention_def split: sum.splits)
qed

lemma sign_run:
  assumes "0 < k" and "c = CHR ''+'' \<or> c = CHR ''-''" and "xs = [] \<or> hd xs \<noteq> c"
  shows "MatchFirst [ws (Word ''+'' []), ws (Word ''-'' [])] (replicate k c @ xs)
     = Match [PyStr (replicate k c)] xs"
proof -
  from assms(1) obtain j where k: "k = Suc j" by (cases k) auto
  have sk: "skip_whitespace (replicate k c @ xs) = replicate k c @ xs"
    using assms(2) by (auto simp: k skip_whitespace_def default_whitespace_def)
  have tw: "takeWhile (\<lambda>x. x = c) (replicate k c @ xs) = replicate k c"
    using assms(3) by (intro takeWhile_run) auto
  have dw: "dropWhile (\<lambda>x. x = c) (replicate k c @ xs) = xs"
    using assms(3) by (intro dropWhile_run) auto
  show ?thesis
  proof (cases "c = CHR ''+''")
    case True
    then show ?thesis using tw dw sk by (simp add: ws_def Word_def k)
  next
    case False
    then have c: "c = CHR ''-''" using assms(2) by simp
    have "ws (Word ''+'' []) (replicate k c @ xs) = NoMatch"
      using sk by (simp add: ws_def Word_def k c)
    then show ?thesis using tw dw sk c by (simp add: ws_def Word_def k)
  qed
qed

lemma attention_without_parens_run:
  assumes "0 < k" and "c = CHR ''+'' \<or> c = CHR ''-''"
    and "word \<noteq> []" and "\<forall>x \<in> set word. x \<notin> set (SPACE_CHARS @ ''()'')" and "hd word \<noteq> c"
    and "rest = [] \<or> hd rest \<in> set (SPACE_CHARS @ ''()'')"
  shows "attention_without_parens self (replicate k c @ word @ rest)
     = (case py_pow (if c = CHR ''+'' then attention_plus_base self
                     else attention_minus_base self) k of
          Inl e \<Rightarrow> Raised e
        | Inr weight \<Rightarrow> Match [Attention weight [Fragment word 1]] rest)"
proof -
  have run: "MatchFirst [ws (Word ''+'' []), ws (Word ''-'' [])] (replicate k c @ word @ rest)
     = Match [PyStr (replicate k c)] (word @ rest)"
    using assms by (intro sign_run) auto
  have tw: "takeWhile (\<lambda>x. x \<notin> set (SPACE_CHARS @ ''()'')) (word @ rest) = word"
    using assms(4,6) by (intro takeWhile_word) auto
  have dw: "dropWhile (\<lambda>x. x \<notin> set (SPACE_CHARS @ ''()'')) (word @ rest) = rest"
    using assms(4,6) by (intro dropWhile_word) auto
  have frag: "set_parse_action wrap_fragment (CharsNotIn (SPACE_CHARS @ ''()'')) (word @ rest)
     = Match [PyList [Fragment word 1]] rest"
    using tw dw assms(3) by (simp add: set_parse_action_def CharsNotIn_def wrap_fragment_def)
  have pow: "py_pow b k = Inl OverflowError \<or> (\<exists>w. py_pow b k = Inr w)" for b
    by (simp add: py_pow_def)
  show ?thesis
    using run frag make_attention_signs [OF assms(1,2), of self "[Fragment word 1]"]
      pow [of "if c = CHR ''+'' then attention_plus_base self else attention_minus_base self"]
    by (auto simp: attention_without_parens_def set_parse_action_def simp del: MatchFirst.simps)
qed

lemma attention_without_parens_word:
  assumes "0 < k" and "c = CHR ''+'' \<or> c = CHR ''-''"
    and "word \<noteq> []" and "\<forall>x \<in> set word. x \<notin> set (SPACE_CHARS @ ''()'')" and "hd word \<noteq> c"
    and "rest = [] \<or> hd rest \<in> set (SPACE_CHARS @ ''()'')"
    and "\<bar>(if c = CHR ''+'' then attention_plus_base self else attention_minus_base self) ^ k\<bar>
           \<le> float_max"
  shows "attention_without_parens self (replicate k c @ word @ rest)
     = Match [Attention ((if c = CHR ''+'' then attention_plus_base self
                          else attention_minus_base self) ^ k) [Fragment word 1]] rest"
  using attention_without_parens_run [OF assms(1-6), of self] assms(7)
  by (simp add: py_pow_def)

text \<open>
  Claim C5, as the specification states it, fails for long runs: the weight of a run of
  signs is computed by \<open>pow\<close> on floats, which raises \<open>OverflowError\<close> when the power
  leaves the range of a double. With the default base \<open>1.1\<close> this happens from a run of
  7448 plus signs on, and the error leaves the rule.
\<close>

theorem sign_run_overflows:
  "make_attention default_parser
       (ParseResults [PyStr (replicate 7448 (CHR ''+'')), PyList [Fragment ''a'' 1]])
     = Inl OverflowError \<and>
   attention_without_parens default_parser (replicate 7448 (CHR ''+'') @ ''a'')
     = Raised OverflowError"
proof
  have ov: "py_pow (attention_plus_base default_parser) 7448 = Inl OverflowError"
    using plus_power_overflows by (simp add: py_pow_def default_parser_def PromptParser_init_def)
  have k: "(0::nat) < 7448" by simp
  show "make_attention default_parser
       (ParseResults [PyStr (replicate 7448 (CHR ''+'')), PyList [Fragment ''a'' 1]])
     = Inl OverflowError"
    using make_attention_signs [OF k, of "CHR ''+''" default_parser "[Fragment ''a'' 1]"] ov
    by simp
  have w: "\<forall>x \<in> set ''a''. x \<notin> set (SPACE_CHARS @ ''()'')"
    by (simp add: SPACE_CHARS_def string_whitespace_def)
  have "attention_without_parens default_parser (replicate 7448 (CHR ''+'') @ ''a'' @ [])
     = Raised OverflowError"
    using attention_without_parens_run [OF k, of "CHR ''+''" "''a''" "[]" default_parser] w ov
    by simp
  then show "attention_without_parens default_parser (replicate 7448 (CHR ''+'') @ ''a'')
     = Raised OverflowError" by simp
qed

text \<open>
  Claim C5, amended. A run of \<open>k\<close> plus signs as the head of an attention gives the weight
  \<open>plus_base ^ k\<close>, a run of \<open>k\<close> minus signs \<open>minus_base ^ k\<close>, as long as the power
  lies in the range of a double; the default bases are \<open>1.1\<close> and \<open>0.9\<close>, for which this
  holds for up to 7447 plus signs and for any number of minus signs. In the form
  without parentheses the rule takes the run and the word that follows it at once (the
  characters up to the next whitespace or parenthesis), makes one attention of that word
  alone and leaves the rest of the input to the rules that follow. In particular
  \<open>parse("++fire flames")\<close> yields \<open>[Fragment("fire", 1.1^2), Fragment("flames", 1.0)]\<close>.
\<close>

theorem sign_run_weights:
  "(0 < k \<and> \<bar>attention_plus_base self ^ k\<bar> \<le> float_max \<longrightarrow>
      make_attention self (ParseResults [PyStr (replicate k (CHR ''+'')), PyList children])
        = Inr (Attention (attention_plus_base self ^ k) children)) \<and>
   (0 < k \<and> \<bar>attention_minus_base self ^ k\<bar> \<le> float_max \<longrightarrow>
      make_attention self (ParseResults [PyStr (replicate k (CHR ''-'')), PyList children])
        = Inr (Attention (attention_minus_base self ^ k) children)) \<and>
   attention_plus_base default_parser = 11 / 10 \<and>
   attention_minus_base default_parser = 9 / 10 \<and>
   (0 < k \<and> k \<le> 7447 \<and> word \<noteq> [] \<and> (\<forall>x \<in> set word. x \<notin> set (SPACE_CHARS @ ''()'')) \<and>
    hd word \<noteq> CHR ''+'' \<and> (rest = [] \<or> hd rest \<in> set (SPACE_CHARS @ ''()'')) \<longrightarrow>
      attention_without_parens default_parser (replicate k (CHR ''+'') @ word @ rest)
        = Match [Attention ((11 / 10) ^ k) [Fragment word 1]] rest) \<and>
   (0 < k \<and> word \<noteq> [] \<and> (\<forall>x \<in> set word. x \<notin> set (SPACE_CHARS @ ''()'')) \<and>
    hd word \<noteq> CHR ''-'' \<and> (rest = [] \<or> hd rest \<in> set (SPACE_CHARS @ ''()'')) \<longrightarrow>
      attention_without_parens default_parser (replicate k (CHR ''-'') @ word @ rest)
        = Match [Attention ((9 / 10) ^ k) [Fragment word 1]] rest) \<and>
   parse default_parser ''++fire flames''
     = Inr (Conjunction [FlattenedPrompt [Fragment ''fire'' ((11 / 10) ^ 2),
                                          Fragment ''flames'' 1]] [1]) \<and>
   parse default_parser ''+(flames)''
     = Inr (Conjunction [FlattenedPrompt [Fragment ''flames'' (11 / 10)]] [1]) \<and>
   parse default_parser ''++(flames)''
     = Inr (Conjunction [FlattenedPrompt [Fragment ''flames'' ((11 / 10) ^ 2)]] [1]) \<and>
   parse default_parser ''-(flames)''
     = Inr (Conjunction [FlattenedPrompt [Fragment ''flames'' (9 / 10)]] [1])"
proof (intro conjI impI)
  assume "0 < k \<and> \<bar>attention_plus_base self ^ k\<bar> \<le> float_max"
  then show "make_attention self (ParseResults [PyStr (replicate k (CHR ''+'')), PyList children])
        = Inr (Attention (attention_plus_base self ^ k) children)"
    using make_attention_signs [of k "CHR ''+''" self children] by (simp add: py_pow_def)
next
  assume "0 < k \<and> \<bar>attention_minus_base self ^ k\<bar> \<le> float_max"
  then show "make_attention self (ParseResults [PyStr (replicate k (CHR ''-'')), PyList children])
        = Inr (Attention (attention_minus_base self ^ k) children)"
    using make_attention_signs [of k "CHR ''-''" self children] by (simp add: py_pow_def)
next
  assume a: "0 < k \<and> k \<le> 7447 \<and> word \<noteq> [] \<and>
    (\<forall>x \<in> set word. x \<notin> set (SPACE_CHARS @ ''()'')) \<and>
    hd word \<noteq> CHR ''+'' \<and> (rest = [] \<or> hd rest \<in> set (SPACE_CHARS @ ''()''))"
  then have "\<bar>(11 / 10 :: real) ^ k\<bar> \<le> float_max" using plus_power_small by blast
  with a show "attention_without_parens default_parser (replicate k (CHR ''+'') @ word @ rest)
        = Match [Attention ((11 / 10) ^ k) [Fragment word 1]] rest"
    using attention_without_parens_word [of k "CHR ''+''" word rest default_parser]
    by (simp add: default_parser_def PromptParser_init_def)
next
  assume a: "0 < k \<and> word \<noteq> [] \<and> (\<forall>x \<in> set word. x \<notin> set (SPACE_CHARS @ ''()'')) \<and>
    hd word \<noteq> CHR ''-'' \<and> (rest = [] \<or> hd rest \<in> set (SPACE_CHARS @ ''()''))"
  have "\<bar>(9 / 10 :: real) ^ k\<bar> \<le> float_max" by (rule minus_power_small)
  with a show "attention_without_parens default_parser (replicate k (CHR ''-'') @ word @ rest)
        = Match [Attention ((9 / 10) ^ k) [Fragment word 1]] rest"
    using attention_without_parens_word [of k "CHR ''-''" word rest default_parser]
    by (simp add: default_parser_def PromptParser_init_def)
next
  show "parse default_parser ''++fire flames''
     = Inr (Conjunction [FlattenedPrompt [Fragment ''fire'' ((11 / 10) ^ 2),
                                          Fragment ''flames'' 1]] [1])"
    by (simp add: grammar_defs power2_eq_square)
next
  show "parse default_parser ''+(flames)''
     = Inr (Conjunction [FlattenedPrompt [Fragment ''flames'' (11 / 10)]] [1])"
    by (simp add: grammar_defs)
next
  show "parse default_parser ''++(flames)''
     = Inr (Conjunction [FlattenedPrompt [Fragment ''flames'' ((11 / 10) ^ 2)]] [1])"
    by (simp add: grammar_defs power2_eq_square)
next
  show "parse default_parser ''-(flames)''
     = Inr (Conjunction [FlattenedPrompt [Fragment ''flames'' (9 / 10)]] [1])"
    by (simp add: grammar_defs)
qed (simp_all add: default_parser_def PromptParser_init_def)

theorem sign_run_weights_witness:
  "attention_without_parens default_parser ''+++flames and fire''
     = Match [Attention (1331 / 1000) [Fragment ''flames'' 1]] '' and fire'' \<and>
   make_attention default_parser (ParseResults [PyStr ''--'', PyList [Fragment ''fire'' 1]])
     = Inr (Attention (81 / 100) [Fragment ''fire'' 1])"
proof -
  have h: "(0::nat) < 3 \<and> (3::nat) \<le> 7447 \<and> ''flames'' \<noteq> [] \<and>
      (\<forall>x \<in> set ''flames''. x \<notin> set (SPACE_CHARS @ ''()'')) \<and>
      hd ''flames'' \<noteq> CHR ''+'' \<and>
      ('' and fire'' = [] \<or> hd '' and fire'' \<in> set (SPACE_CHARS @ ''()''))"
    by (simp add: SPACE_CHARS_def string_whitespace_def)
  have k: "(0::nat) < 2 \<and> \<bar>attention_minus_base default_parser ^ 2\<bar> \<le> float_max"
    by (simp add: default_parser_def PromptParser_init_def float_max_def power_divide)
  note r1 = sign_run_weights [of 3 default_parser "[]" "''flames''" "'' and fire''"]
  note r2 = sign_run_weights [of 2 default_parser "[Fragment ''fire'' 1]" "''x''" "[]"]
  have a: "attention_without_parens default_parser (replicate 3 (CHR ''+'') @ ''flames'' @ '' and fire'')
     = Match [Attention ((11 / 10) ^ 3) [Fragment ''flames'' 1]] '' and fire''"
    using r1 h by blast
  have b: "make_attention default_parser
        (ParseResults [PyStr (replicate 2 (CHR ''-'')), PyList [Fragment ''fire'' 1]])
     = Inr (Attention (attention_minus_base default_parser ^ 2) [Fragment ''fire'' 1])"
    using r2 k by blast
  have c: "attention_minus_base default_parser = 9 / 10"
    by (simp add: default_parser_def PromptParser_init_def)
  show ?thesis
    using a b c by (simp add: numeral_3_eq_3 numeral_2_eq_2 power2_eq_square power3_eq_cube)
qed


section \<open>Properties of the grammar\<close>

subsection \<open>The combinators\<close>

lemma escapes_simps [simp]:
  "escapes ParsingException" "escapes RecursionError" "escapes OverflowError"
  by (simp_all add: escapes_def)

lemma ok_mono:
  "ok s b T res \<Longrightarrow> (\<And>ts. T ts \<Longrightarrow> T' ts) \<Longrightarrow> (b' \<longrightarrow> b) \<Longrightarrow> ok s b' T' res"
  by (auto simp: ok_def split: presult.splits if_splits)

lemma skip_whitespace_length: "length (skip_whitespace s) \<le> length s"
  by (simp add: skip_whitespace_def length_dropWhile_le)

lemma ok_ws:
  "ok (skip_whitespace s) b T (p (skip_whitespace s)) \<Longrightarrow> ok s b T (ws p s)"
  using skip_whitespace_length [of s]
  by (auto simp: ok_def ws_def split: presult.splits if_splits)

lemma ok_Suppress: "ok s b T (p s) \<Longrightarrow> ok s b no_tokens (Suppress p s)"
  by (auto simp: ok_def Suppress_def no_tokens_def split: presult.splits if_splits)

lemma ok_Group:
  "ok s b T (p s) \<Longrightarrow> ok s b (\<lambda>ts. \<exists>cs. ts = [ParseResults cs] \<and> T cs) (Group p s)"
  by (auto simp: ok_def Group_def split: presult.splits if_splits)

lemma ok_And_Nil: "ok s False no_tokens (And [] s)"
  by (simp add: ok_def no_tokens_def)

lemma ok_And_Cons:
  assumes "ok s b1 T1 (p s)"
    and "\<And>ts r. p s = Match ts r \<Longrightarrow> length r \<le> length s \<Longrightarrow>
           (b1 \<longrightarrow> length r < length s) \<Longrightarrow> ok r b2 T2 (And ps r)"
    and "\<And>t1 t2. T1 t1 \<Longrightarrow> T2 t2 \<Longrightarrow> T (t1 @ t2)"
  shows "ok s (b1 \<or> b2) T (And (p # ps) s)"
proof (cases "p s")
  case (Match ts r)
  then have l: "length r \<le> length s" "b1 \<longrightarrow> length r < length s" "T1 ts"
    using assms(1) by (auto simp: ok_def split: if_splits)
  have "ok r b2 T2 (And ps r)" using assms(2) Match l(1,2) by blast
  then show ?thesis
    using Match l assms(3) by (auto simp: ok_def split: presult.splits if_splits)
next
  case NoMatch
  then show ?thesis by (simp add: ok_def)
next
  case (Raised e)
  then show ?thesis using assms(1) by (simp add: ok_def)
qed

lemma ok_And_single:
  "ok s b T (p s) \<Longrightarrow> ok s b T (And [p] s)"
  by (auto simp: ok_def split: presult.splits)

lemma ok_MatchFirst:
  "(\<And>p. p \<in> set ps \<Longrightarrow> ok s b T (p s)) \<Longrightarrow> ok s b T (MatchFirst ps s)"
proof (induction ps)
  case Nil
  then show ?case by (simp add: ok_def)
next
  case (Cons p ps)
  have "ok s b T (p s)" using Cons.prems by simp
  moreover have "ok s b T (MatchFirst ps s)" using Cons by simp
  ultimately show ?case by (cases "p s") (auto simp: ok_def)
qed

lemma ok_Optional:
  "ok s b T (p s) \<Longrightarrow> T [] \<Longrightarrow> ok s False T (Optional p s)"
  by (auto simp: ok_def Optional_def split: presult.splits if_splits)

lemma ok_ZeroOrMore:
  "(\<And>r. length r \<le> length s \<Longrightarrow> ok r True (list_all Q) (p r)) \<Longrightarrow>
   ok s False (list_all Q) (ZeroOrMore p s)"
proof (induction p s rule: ZeroOrMore.induct)
  case (1 p s)
  have here: "ok s True (list_all Q) (p s)" using "1.prems" by simp
  show ?case
  proof (cases "p s")
    case (Match ts r)
    then have l: "length r < length s" "list_all Q ts"
      using here by (auto simp: ok_def)
    have "ok r False (list_all Q) (ZeroOrMore p r)"
      using "1.IH" [OF Match l(1)] "1.prems" l(1) by simp
    then show ?thesis
      using Match l
      by (subst ZeroOrMore.simps) (auto simp: ok_def split: presult.splits)
  next
    case NoMatch
    then show ?thesis by (subst ZeroOrMore.simps) (simp add: ok_def)
  next
    case (Raised e)
    then show ?thesis using here by (subst ZeroOrMore.simps) (simp add: ok_def)
  qed
qed

lemma ok_OneOrMore:
  assumes "\<And>r. length r \<le> length s \<Longrightarrow> ok r True (list_all Q) (p r)"
  shows "ok s True (list_all Q) (OneOrMore p s)"
proof (cases "p s")
  case (Match ts r)
  have here: "ok s True (list_all Q) (p s)" using assms by simp
  then have l: "length r < length s" "list_all Q ts"
    using Match by (auto simp: ok_def)
  have "ok r False (list_all Q) (ZeroOrMore p r)"
    using assms l(1) by (intro ok_ZeroOrMore) simp
  then show ?thesis
    using Match l by (auto simp: ok_def OneOrMore_def split: presult.splits)
next
  case NoMatch
  then show ?thesis by (simp add: ok_def OneOrMore_def)
next
  case (Raised e)
  then show ?thesis using assms [of s] by (simp add: ok_def OneOrMore_def)
qed

lemma py_join_strs: "list_all is_PyStr ts \<Longrightarrow> \<exists>t. py_join sep ts = Inr t"
proof (induction sep ts rule: py_join.induct)
  case (3 sep s x xs)
  then show ?case by (auto split: sum.splits)
qed simp_all

lemma ok_Combine:
  assumes "ok (skip_whitespace s) b (list_all is_PyStr) (p (skip_whitespace s))"
  shows "ok s b one_str (Combine p s)"
proof (cases "p (skip_whitespace s)")
  case (Match ts r)
  then have "list_all is_PyStr ts" using assms by (simp add: ok_def)
  then obtain t where "py_join [] ts = Inr t" using py_join_strs by blast
  then show ?thesis
    using Match assms skip_whitespace_length [of s]
    by (auto simp: ok_def Combine_def one_str_def split: if_splits)
next
  case NoMatch
  then show ?thesis by (simp add: ok_def Combine_def)
next
  case (Raised e)
  then show ?thesis using assms by (simp add: ok_def Combine_def)
qed

lemma ok_action:
  assumes "ok s b T (p s)" and "action_ok fn T T'"
  shows "ok s b T' (set_parse_action fn p s)"
proof (cases "p s")
  case (Match ts r)
  then have "T ts" using assms(1) by (simp add: ok_def)
  then have "case fn (ParseResults ts) of Inr v \<Rightarrow> T' (as_tokens v)
      | Inl e \<Rightarrow> e = ParseException \<or> e = IndexError \<or> escapes e"
    using assms(2) by (simp add: action_ok_def)
  then show ?thesis
    using Match assms(1)
    by (auto simp: ok_def set_parse_action_def split: sum.splits if_splits)
next
  case NoMatch
  then show ?thesis by (simp add: ok_def set_parse_action_def)
next
  case (Raised e)
  then show ?thesis using assms(1) by (simp add: ok_def set_parse_action_def)
qed

lemma or_try_Inr:
  "or_try alts s = Inr ms \<Longrightarrow> snd ` set ms \<subseteq> snd ` set alts"
proof (induction alts arbitrary: ms)
  case Nil
  then show ?case by simp
next
  case (Cons a alts)
  obtain t f where a: "a = (t, f)" by (cases a)
  show ?case
  proof (cases "t s")
    case (Match ts r)
    then obtain ms' where m: "or_try alts s = Inr ms'" "ms = (length r, f) # ms'"
      using Cons.prems by (auto simp: a split: sum.splits)
    have "snd ` set ms' \<subseteq> snd ` set alts" using Cons.IH m(1) by blast
    then show ?thesis using m(2) a by auto
  next
    case NoMatch
    then have "or_try alts s = Inr ms" using Cons.prems by (simp add: a)
    then have "snd ` set ms \<subseteq> snd ` set alts" using Cons.IH by blast
    then show ?thesis by auto
  next
    case (Raised e)
    then show ?thesis using Cons.prems by (simp add: a)
  qed
qed

lemma or_try_Inl:
  assumes "\<And>t f. (t, f) \<in> set alts \<Longrightarrow> ok s b T0 (t s)"
  shows "or_try alts s = Inl e \<Longrightarrow> escapes e"
  using assms
proof (induction alts)
  case Nil
  then show ?case by simp
next
  case (Cons a alts)
  obtain t f where a: "a = (t, f)" by (cases a)
  have h: "ok s b T0 (t s)" using Cons.prems(2) [of t f] a by simp
  have r: "\<And>t f. (t, f) \<in> set alts \<Longrightarrow> ok s b T0 (t s)" using Cons.prems(2) by auto
  show ?case
  proof (cases "t s")
    case (Match ts r')
    then have "or_try alts s = Inl e" using Cons.prems(1) by (auto simp: a split: sum.splits)
    then show ?thesis using Cons.IH r by blast
  next
    case NoMatch
    then have "or_try alts s = Inl e" using Cons.prems(1) by (simp add: a)
    then show ?thesis using Cons.IH r by blast
  next
    case (Raised e')
    then show ?thesis using Cons.prems(1) h by (simp add: a ok_def)
  qed
qed

lemma ok_Or:
  assumes "\<And>t f. (t, f) \<in> set alts \<Longrightarrow> ok s b T0 (t s)"
    and "\<And>t f. (t, f) \<in> set alts \<Longrightarrow> ok s b T (f s)"
  shows "ok s b T (Or alts s)"
proof (cases "or_try alts s")
  case (Inl e)
  then have "escapes e"
    using or_try_Inl [of alts s b T0 e] assms(1) by blast
  then show ?thesis using Inl by (simp add: Or_def ok_def)
next
  case (Inr ms)
  then have sub: "snd ` set ms \<subseteq> snd ` set alts"
    using or_try_Inr by blast
  have "ok s b T (MatchFirst (map snd (sort_key fst ms)) s)"
  proof (rule ok_MatchFirst)
    fix p assume "p \<in> set (map snd (sort_key fst ms))"
    then have "p \<in> snd ` set alts" using sub by auto
    then show "ok s b T (p s)" using assms(2) by auto
  qed
  then show ?thesis using Inr by (simp add: Or_def)
qed

subsection \<open>The lexical rules\<close>

lemma one_str_all: "one_str ts \<Longrightarrow> list_all is_PyStr ts"
  by (auto simp: one_str_def)

lemma dropWhile_shorter: "takeWhile P s \<noteq> [] \<Longrightarrow> length (dropWhile P s) < length s"
  by (cases s) (auto simp: length_dropWhile_le le_imp_less_Suc split: if_splits)

lemma ok_Literal: "lit \<noteq> [] \<Longrightarrow> ok s True one_str (Literal lit s)"
proof -
  assume n: "lit \<noteq> []"
  show ?thesis
  proof (cases "take (length lit) s = lit")
    case True
    then have "s \<noteq> []" using n by auto
    then show ?thesis using True n by (simp add: ok_def Literal_def one_str_def)
  next
    case False
    then show ?thesis by (simp add: ok_def Literal_def)
  qed
qed

lemma ok_Word: "ok s True one_str (Word init_chars exclude_chars s)"
  by (simp add: ok_def Word_def Let_def one_str_def dropWhile_shorter)

lemma ok_CharsNotIn: "ok s True one_str (CharsNotIn not_chars s)"
  by (simp add: ok_def CharsNotIn_def Let_def one_str_def dropWhile_shorter)

lemma ok_StringEnd: "ok s False no_tokens (StringEnd s)"
  by (simp add: ok_def StringEnd_def no_tokens_def)

lemma split_sign_length: "split_sign s = (neg, r) \<Longrightarrow> length r \<le> length s"
  by (auto simp: split_sign_def split: list.splits if_splits)

lemma ok_real_regex: "ok s True one_float (real_regex s)"
proof -
  obtain neg r1 where sp: "split_sign s = (neg, r1)" by (cases "split_sign s")
  have l1: "length r1 \<le> length s" using sp by (rule split_sign_length)
  show ?thesis
  proof (cases "dropWhile is_digit r1")
    case Nil
    have "real_regex s = NoMatch"
      unfolding real_regex_def sp Let_def prod.case Nil by simp
    then show ?thesis by (simp add: ok_def)
  next
    case (Cons c r3)
    have "length (dropWhile is_digit r1) \<le> length r1" by (rule length_dropWhile_le)
    then have "length r3 < length r1" using Cons by simp
    moreover have "length (dropWhile is_digit r3) \<le> length r3" by (rule length_dropWhile_le)
    ultimately have "length (dropWhile is_digit r3) < length s" using l1 by simp
    moreover have "real_regex s = NoMatch \<or> (\<exists>f. real_regex s = Match [PyFloat f] (dropWhile is_digit r3))"
      unfolding real_regex_def sp Let_def prod.case Cons by simp
    ultimately show ?thesis by (auto simp: ok_def one_float_def)
  qed
qed

lemma action_to_float: "action_ok to_float one_str one_float"
  by (auto simp: action_ok_def one_str_def one_float_def to_float_def)

lemma ok_number: "ok s True one_float (number s)"
  unfolding number_def
proof (rule ok_MatchFirst)
  fix p assume "p \<in> set [pyparsing_common_real, set_parse_action to_float (ws (Word nums []))]"
  then consider "p = pyparsing_common_real" | "p = set_parse_action to_float (ws (Word nums []))"
    by auto
  then show "ok s True one_float (p s)"
  proof cases
    case 1
    then show ?thesis
      by (simp add: pyparsing_common_real_def ok_ws ok_real_regex)
  next
    case 2
    have "ok s True one_str (ws (Word nums []) s)" by (intro ok_ws ok_Word)
    then show ?thesis unfolding 2 using action_to_float by (rule ok_action)
  qed
qed

lemma quoted_body_length: "quoted_body cs = Some (b, r) \<Longrightarrow> length r \<le> length cs"
proof (induction cs arbitrary: b rule: quoted_body.induct)
  case (3 c d cs)
  then show ?case by (auto split: if_splits) 
qed (auto split: if_splits)

lemma ok_quoted_raw: "ok s True one_str (quoted_raw s)"
proof (cases s)
  case Nil
  then show ?thesis by (simp add: quoted_raw_def ok_def)
next
  case (Cons c cs)
  show ?thesis
  proof (cases "quoted_body cs")
    case None
    then show ?thesis by (simp add: quoted_raw_def Cons ok_def)
  next
    case (Some br)
    obtain b r where br: "br = (b, r)" by (cases br)
    have "length r \<le> length cs" using Some br quoted_body_length by blast
    then show ?thesis by (simp add: quoted_raw_def Cons Some br ok_def one_str_def)
  qed
qed

lemma ok_QuotedString: "ok s True one_str (QuotedString s)"
  using ok_quoted_raw [of s]
  by (auto simp: QuotedString_def ok_def one_str_def split: presult.splits list.splits node.splits)

lemma quoted_regex_body_length: "quoted_regex_body q cs = (m, r) \<Longrightarrow> length r \<le> length cs"
proof (induction q cs arbitrary: m r rule: quoted_regex_body.induct)
  case (1 q)
  then show ?case by simp
next
  case (2 q c cs)
  then show ?case
    by (auto split: if_splits list.splits prod.splits simp: le_Suc_eq)
qed

lemma ok_quoted_regex: "ok s True one_str (quoted_regex q s)"
proof (cases s)
  case Nil
  then show ?thesis by (simp add: quoted_regex_def ok_def)
next
  case (Cons c cs)
  obtain m r where mr: "quoted_regex_body q cs = (m, r)" by (cases "quoted_regex_body q cs")
  then have "length r \<le> length cs" by (rule quoted_regex_body_length)
  then show ?thesis by (simp add: quoted_regex_def Cons mr ok_def one_str_def)
qed

lemma one_str_append: "list_all is_PyStr t1 \<Longrightarrow> list_all is_PyStr t2 \<Longrightarrow> list_all is_PyStr (t1 @ t2)"
  by simp

lemma ok_quoted_pair:
  "ok s True (list_all is_PyStr) (And [quoted_regex q, Literal [q]] s)"
  using ok_quoted_regex [of s q]
  by (auto simp: ok_def one_str_def Literal_def split: presult.splits if_splits)

lemma ok_dbl_quoted_string: "ok s True one_str (dbl_quoted_string s)"
  unfolding dbl_quoted_string_def by (rule ok_Combine) (rule ok_quoted_pair)

lemma ok_quoted_string: "ok s True one_str (quoted_string s)"
  unfolding quoted_string_def
  by (rule ok_Combine) (rule ok_MatchFirst, auto intro: ok_quoted_pair)

lemma ok_lit_suppress: "lit \<noteq> [] \<Longrightarrow> ok s True no_tokens (Suppress (ws (Literal lit)) s)"
  by (rule ok_Suppress [where T = one_str]) (rule ok_ws, rule ok_Literal)

lemma ok_lparen: "ok s True no_tokens (lparen s)"
  by (simp add: lparen_def ok_lit_suppress)

lemma ok_rparen: "ok s True no_tokens (rparen s)"
  by (simp add: rparen_def ok_lit_suppress)

lemma ok_quotes: "ok s True no_tokens (quotes s)"
  by (simp add: quotes_def ok_lit_suppress)

subsection \<open>The attention rules\<close>

text \<open>Whatever the depth, the recursive rules return attentions and groups or raise
  \<open>RecursionError\<close>, \<open>OverflowError\<close> or \<open>ParsingException\<close>.\<close>

lemma one_side_all: "one_side ts \<Longrightarrow> list_all att_child ts"
  by (auto simp: one_side_def)

lemma one_str_side: "one_str ts \<Longrightarrow> one_side ts"
  by (auto simp: one_str_def one_side_def)

lemma one_group_side: "one_group ts \<Longrightarrow> one_side ts"
  by (auto simp: one_group_def one_side_def)

lemma action_make_fragment: "action_ok make_fragment one_str one_side"
  by (auto simp: action_ok_def one_str_def one_side_def)

lemma action_wrap_fragment:
  "action_ok wrap_fragment one_str (\<lambda>ts. \<exists>t. ts = [PyList [Fragment t 1]])"
  by (auto simp: action_ok_def one_str_def wrap_fragment_def)

lemma action_make_attention: "action_ok (make_attention self) attention_tokens one_side"
proof -
  have "\<And>x0 x1 cs. py_iter x1 = Inr cs \<Longrightarrow> list_all att_child cs \<Longrightarrow>
     (case make_attention self (ParseResults [x0, x1]) of
        Inr v \<Rightarrow> one_side (as_tokens v)
      | Inl e \<Rightarrow> e = ParseException \<or> e = IndexError \<or> escapes e)"
  proof -
    fix x0 x1 cs
    assume a: "py_iter x1 = Inr cs" "list_all att_child cs"
    have "attention_weight self x0 = Inl IndexError \<or>
        attention_weight self x0 = Inl OverflowError \<or> (\<exists>w. attention_weight self x0 = Inr w)"
      by (cases x0) (auto simp: py_pow_def split: list.splits)
    then show "case make_attention self (ParseResults [x0, x1]) of
        Inr v \<Rightarrow> one_side (as_tokens v)
      | Inl e \<Rightarrow> e = ParseException \<or> e = IndexError \<or> escapes e"
      using a by (auto simp: make_attention_def one_side_def)
  qed
  then show ?thesis by (auto simp: action_ok_def attention_tokens_def)
qed

lemma ok_attention_head: "ok s True single (attention_head s)"
  unfolding attention_head_def
proof (rule ok_MatchFirst)
  fix p assume "p \<in> set [number, ws (Word ''+'' []), ws (Word ''-'' [])]"
  then consider "p = number" | "p = ws (Word ''+'' [])" | "p = ws (Word ''-'' [])" by auto
  then show "ok s True single (p s)"
  proof cases
    case 1
    show ?thesis unfolding 1 using ok_number
      by (rule ok_mono) (auto simp: one_float_def single_def)
  next
    case 2
    have "ok s True one_str (ws (Word ''+'' []) s)" by (intro ok_ws ok_Word)
    then show ?thesis unfolding 2 by (rule ok_mono) (auto simp: one_str_def single_def)
  next
    case 3
    have "ok s True one_str (ws (Word ''-'' []) s)" by (intro ok_ws ok_Word)
    then show ?thesis unfolding 3 by (rule ok_mono) (auto simp: one_str_def single_def)
  qed
qed

lemma ok_fragment_inside_attention: "ok s True one_side (fragment_inside_attention s)"
  unfolding fragment_inside_attention_def
  using ok_CharsNotIn action_make_fragment by (rule ok_action)

lemma ok_delimited_list:
  assumes "\<And>r. length r \<le> length s \<Longrightarrow> ok r True (list_all Q) (m r)" and "delim \<noteq> []"
  shows "ok s True (list_all Q) (delimited_list m delim s)"
proof -
  have body: "\<And>r. length r \<le> length s \<Longrightarrow>
      ok r True (list_all Q) (And [Suppress (ws (Literal delim)), m] r)"
  proof -
    fix r :: string assume r: "length r \<le> length s"
    have 1: "ok r True no_tokens (Suppress (ws (Literal delim)) r)"
      using assms(2) by (rule ok_lit_suppress)
    have "ok r (True \<or> True) (list_all Q) (And (Suppress (ws (Literal delim)) # [m]) r)"
      using 1
    proof (rule ok_And_Cons)
      fix ts :: "node list" and r' :: string assume "length r' \<le> length r"
      then have "ok r' True (list_all Q) (m r')" using assms(1) r by simp
      then show "ok r' True (list_all Q) (And [m] r')" by (rule ok_And_single)
    qed (simp add: no_tokens_def)
    then show "ok r True (list_all Q) (And [Suppress (ws (Literal delim)), m] r)" by simp
  qed
  have rep: "\<And>r. length r \<le> length s \<Longrightarrow>
      ok r False (list_all Q) (ws (ZeroOrMore (And [Suppress (ws (Literal delim)), m])) r)"
  proof -
    fix r :: string assume r: "length r \<le> length s"
    have "length (skip_whitespace r) \<le> length s"
      using r skip_whitespace_length [of r] by simp
    then have "ok (skip_whitespace r) False (list_all Q)
        (ZeroOrMore (And [Suppress (ws (Literal delim)), m]) (skip_whitespace r))"
      using body by (intro ok_ZeroOrMore) simp
    then show "ok r False (list_all Q) (ws (ZeroOrMore (And [Suppress (ws (Literal delim)), m])) r)"
      by (rule ok_ws)
  qed
  have "ok s (True \<or> False) (list_all Q)
      (And (m # [ws (ZeroOrMore (And [Suppress (ws (Literal delim)), m]))]) s)"
  proof (rule ok_And_Cons)
    show "ok s True (list_all Q) (m s)" using assms(1) by simp
  next
    fix ts :: "node list" and r :: string assume "length r \<le> length s"
    then have "ok r False (list_all Q) (ws (ZeroOrMore (And [Suppress (ws (Literal delim)), m])) r)"
      by (rule rep)
    then show "ok r False (list_all Q) (And [ws (ZeroOrMore (And [Suppress (ws (Literal delim)), m]))] r)"
      by (rule ok_And_single)
  qed simp
  then show ?thesis by (simp add: delimited_list_def)
qed

lemma ok_attention_rules:
  "(\<forall>s. ok s True one_side (attention_with_parens self n s)) \<and>
   (\<forall>s. ok s True one_group (attention_with_parens_body self n s))"
proof (induction n)
  case 0
  show ?case by (simp add: ok_def)
next
  case (Suc depth)
  then have aw: "\<And>r. ok r True one_side (attention_with_parens self depth r)"
    and body: "\<And>r. ok r True one_group (attention_with_parens_body self depth r)" by simp_all
  let ?m = "MatchFirst [attention_with_parens self depth, fragment_inside_attention]"
  let ?content = "delimited_list ?m SPACE_CHARS"
  let ?item = "MatchFirst [quoted_string, attention_with_parens_body self depth, ?content]"
  have m: "\<And>r. ok r True (list_all att_child) (?m r)"
  proof -
    fix r :: string
    show "ok r True (list_all att_child) (?m r)"
    proof (rule ok_MatchFirst)
      fix p assume "p \<in> set [attention_with_parens self depth, fragment_inside_attention]"
      then consider "p = attention_with_parens self depth"
        | "p = fragment_inside_attention" by auto
      then show "ok r True (list_all att_child) (p r)"
      proof cases
        case 1
        show ?thesis unfolding 1 using aw by (rule ok_mono) (auto simp: one_side_def)
      next
        case 2
        show ?thesis unfolding 2 using ok_fragment_inside_attention
          by (rule ok_mono) (auto simp: one_side_def)
      qed
    qed
  qed
  have content: "\<And>r. ok r True (list_all att_child) (?content r)"
  proof -
    fix r :: string
    show "ok r True (list_all att_child) (?content r)"
    proof (rule ok_delimited_list)
      fix r' :: string
      show "ok r' True (list_all att_child) (?m r')" by (rule m)
    qed (simp add: SPACE_CHARS_def string_whitespace_def)
  qed
  have item: "\<And>r. ok r True (list_all att_child) (?item r)"
  proof -
    fix r :: string
    show "ok r True (list_all att_child) (?item r)"
    proof (rule ok_MatchFirst)
      fix p assume "p \<in> set [quoted_string, attention_with_parens_body self depth, ?content]"
      then consider "p = quoted_string" | "p = attention_with_parens_body self depth"
        | "p = ?content" by auto
      then show "ok r True (list_all att_child) (p r)"
      proof cases
        case 1
        show ?thesis unfolding 1 using ok_quoted_string
          by (rule ok_mono) (auto simp: one_str_def)
      next
        case 2
        show ?thesis unfolding 2 using body by (rule ok_mono) (auto simp: one_group_def)
      next
        case 3
        show ?thesis unfolding 3 by (rule content)
      qed
    qed
  qed
  have close: "\<And>r. ok r True (list_all att_child) (And [Suppress (ws (Literal '')''))] r)"
    by (rule ok_And_single, rule ok_mono, rule ok_lit_suppress) (auto simp: no_tokens_def)
  have rest: "\<And>r. ok r True (list_all att_child)
      (And [ZeroOrMore ?item, Suppress (ws (Literal '')''))] r)"
  proof -
    fix r :: string
    have "ok r (False \<or> True) (list_all att_child)
        (And (ZeroOrMore ?item # [Suppress (ws (Literal '')''))]) r)"
    proof (rule ok_And_Cons)
      show "ok r False (list_all att_child) (ZeroOrMore ?item r)"
        using item by (intro ok_ZeroOrMore)
    next
      fix ts :: "node list" and r' :: string
      show "ok r' True (list_all att_child) (And [Suppress (ws (Literal '')''))] r')"
        by (rule close)
    qed simp
    then show "ok r True (list_all att_child)
      (And [ZeroOrMore ?item, Suppress (ws (Literal '')''))] r)" by simp
  qed
  have group: "\<And>s. ok s True one_group (attention_with_parens_body self (Suc depth) s)"
  proof -
    fix s :: string
    have "ok s (True \<or> True) (list_all att_child)
        (And (Suppress (ws (Literal ''('')) # [ZeroOrMore ?item, Suppress (ws (Literal '')''))]) s)"
    proof (rule ok_And_Cons)
      show "ok s True no_tokens (Suppress (ws (Literal ''('')) s)" by (rule ok_lit_suppress) simp
    next
      fix ts :: "node list" and r :: string
      show "ok r True (list_all att_child)
          (And [ZeroOrMore ?item, Suppress (ws (Literal '')''))] r)"
        by (rule rest)
    qed (simp add: no_tokens_def)
    then have "ok s True (\<lambda>ts. \<exists>cs. ts = [ParseResults cs] \<and> list_all att_child cs)
        (Group (And [Suppress (ws (Literal ''('')), ZeroOrMore ?item,
                     Suppress (ws (Literal '')''))]) s)"
      by (intro ok_Group) simp
    then have "ok s True one_group
        (Group (And [Suppress (ws (Literal ''('')), ZeroOrMore ?item,
                     Suppress (ws (Literal '')''))]) s)"
      by (rule ok_mono) (auto simp: one_group_def)
    then show "ok s True one_group (attention_with_parens_body self (Suc depth) s)"
      by simp
  qed
  have head: "\<And>s. ok s True one_side (attention_with_parens self (Suc depth) s)"
  proof -
    fix s :: string
    have "ok s (True \<or> True) attention_tokens
        (And (attention_head # [attention_with_parens_body self depth]) s)"
    proof (rule ok_And_Cons)
      show "ok s True single (attention_head s)" by (rule ok_attention_head)
    next
      fix ts :: "node list" and r :: string
      show "ok r True one_group (And [attention_with_parens_body self depth] r)"
        using body by (rule ok_And_single)
    next
      fix t1 t2 assume "single t1" "one_group t2"
      then show "attention_tokens (t1 @ t2)"
        by (auto simp: single_def one_group_def attention_tokens_def)
    qed
    then have "ok s True attention_tokens
        (And [attention_head, attention_with_parens_body self depth] s)" by simp
    then have "ok s True one_side (set_parse_action (make_attention self)
        (And [attention_head, attention_with_parens_body self depth]) s)"
      using action_make_attention by (rule ok_action)
    then show "ok s True one_side (attention_with_parens self (Suc depth) s)" by simp
  qed
  show ?case using head group by blast
qed

lemma ok_attention_with_parens: "ok s True one_side (attention_with_parens self n s)"
  using ok_attention_rules [of self n] by blast

lemma ok_sign_run: "ok s True single (MatchFirst [ws (Word ''+'' []), ws (Word ''-'' [])] s)"
proof (rule ok_MatchFirst)
  fix p assume "p \<in> set [ws (Word ''+'' []), ws (Word ''-'' [])]"
  then obtain c where "p = ws (Word c [])" by auto
  have "ok s True one_str (ws (Word c []) s)" by (intro ok_ws ok_Word)
  then have "ok s True single (ws (Word c []) s)"
    by (rule ok_mono) (auto simp: one_str_def single_def)
  then show "ok s True single (p s)" using \<open>p = ws (Word c [])\<close> by simp
qed

lemma ok_attention_without_parens: "ok s True one_side (attention_without_parens self s)"
proof -
  let ?w = "set_parse_action wrap_fragment (CharsNotIn (SPACE_CHARS @ ''()''))"
  have w: "\<And>r. ok r True (\<lambda>ts. \<exists>t. ts = [PyList [Fragment t 1]]) (?w r)"
    using ok_CharsNotIn action_wrap_fragment by (rule ok_action)
  have "ok s (True \<or> True) attention_tokens
      (And (MatchFirst [ws (Word ''+'' []), ws (Word ''-'' [])] # [?w]) s)"
  proof (rule ok_And_Cons)
    show "ok s True single (MatchFirst [ws (Word ''+'' []), ws (Word ''-'' [])] s)"
      by (rule ok_sign_run)
  next
    fix ts :: "node list" and r :: string show "ok r True (\<lambda>ts. \<exists>t. ts = [PyList [Fragment t 1]]) (And [?w] r)"
      using w by (rule ok_And_single)
  next
    fix t1 t2 assume "single t1" "\<exists>t. t2 = [PyList [Fragment t 1]]"
    then show "attention_tokens (t1 @ t2)"
      by (auto simp: single_def attention_tokens_def)
  qed
  then have "ok s True attention_tokens
      (And [MatchFirst [ws (Word ''+'' []), ws (Word ''-'' [])], ?w] s)" by simp
  then show ?thesis
    unfolding attention_without_parens_def using action_make_attention by (rule ok_action)
qed

lemma ok_attention: "ok s True one_side (attention self s)"
  unfolding attention_def
proof (rule ok_MatchFirst)
  fix p assume "p \<in> set [attention_with_parens self (nesting_limit self),
      attention_without_parens self]"
  then consider "p = attention_with_parens self (nesting_limit self)"
    | "p = attention_without_parens self" by auto
  then show "ok s True one_side (p s)"
  proof cases
    case 1
    show ?thesis unfolding 1 by (rule ok_attention_with_parens)
  next
    case 2
    show ?thesis unfolding 2 by (rule ok_attention_without_parens)
  qed
qed

subsection \<open>Fragments, substitutions and prompts\<close>

lemma att_child_part: "att_child x \<Longrightarrow> part_tok x"
  by (cases x) simp_all

lemma one_side_parts: "one_side ts \<Longrightarrow> list_all part_tok ts"
  by (auto simp: one_side_def att_child_part)

lemma ok_And_skip:
  assumes "ok s True no_tokens (p s)" and "\<And>r. ok r b T (And ps r)"
  shows "ok s True T (And (p # ps) s)"
proof -
  have "ok s (True \<or> b) T (And (p # ps) s)"
    using assms(1)
  proof (rule ok_And_Cons)
    fix ts :: "node list" and r :: string
    show "ok r b T (And ps r)" by (rule assms(2))
  qed (simp add: no_tokens_def)
  then show ?thesis by simp
qed

lemma ok_And_then_skip:
  assumes "ok s True T (p s)" and "\<And>r. ok r b no_tokens (And ps r)"
  shows "ok s True T (And (p # ps) s)"
proof -
  have "ok s (True \<or> b) T (And (p # ps) s)"
    using assms(1)
  proof (rule ok_And_Cons)
    fix ts :: "node list" and r :: string
    show "ok r b no_tokens (And ps r)" by (rule assms(2))
  qed (simp add: no_tokens_def)
  then show ?thesis by simp
qed

lemma ok_And_pair:
  assumes "ok s True T1 (p s)" and "\<And>r. ok r b T2 (And ps r)"
    and "\<And>t1 t2. T1 t1 \<Longrightarrow> T2 t2 \<Longrightarrow> T (t1 @ t2)"
  shows "ok s True T (And (p # ps) s)"
proof -
  have "ok s (True \<or> b) T (And (p # ps) s)"
    using assms(1)
  proof (rule ok_And_Cons)
    fix ts :: "node list" and r :: string
    show "ok r b T2 (And ps r)" by (rule assms(2))
  qed (rule assms(3))
  then show ?thesis by simp
qed

lemma ok_And_list:
  "(\<And>q r. q \<in> set ps \<Longrightarrow> ok r False (list_all Q) (q r)) \<Longrightarrow>
     ok s False (list_all Q) (And ps s)"
proof (induction ps arbitrary: s)
  case Nil
  show ?case using ok_And_Nil [of s] by (rule ok_mono) (simp_all add: no_tokens_def)
next
  case (Cons p ps)
  have "ok s (False \<or> False) (list_all Q) (And (p # ps) s)"
  proof (rule ok_And_Cons)
    show "ok s False (list_all Q) (p s)" using Cons.prems by simp
  next
    fix ts :: "node list" and r :: string
    show "ok r False (list_all Q) (And ps r)" using Cons.IH Cons.prems by simp
  qed simp
  then show ?case by simp
qed

lemma ok_And_all:
  assumes "ok s True (list_all Q) (p s)"
    and "\<And>q r. q \<in> set ps \<Longrightarrow> ok r False (list_all Q) (q r)"
  shows "ok s True (list_all Q) (And (p # ps) s)"
proof -
  have "\<And>r. ok r False (list_all Q) (And ps r)" using assms(2) by (rule ok_And_list)
  then show ?thesis using assms(1) by (intro ok_And_pair [where ?T1.0 = "list_all Q"]) simp_all
qed

lemma ok_weaken: "ok s True T res \<Longrightarrow> ok s False T res"
  by (rule ok_mono) simp_all

lemma ok_parens:
  assumes "\<And>r. ok r b T (p r)"
  shows "ok s True T (And [lparen, p, rparen] s)"
proof -
  have 1: "\<And>r. ok r True no_tokens (And [rparen] r)"
    by (rule ok_And_single) (rule ok_rparen)
  have "\<And>r. ok r (b \<or> True) T (And (p # [rparen]) r)"
  proof -
    fix r :: string
    show "ok r (b \<or> True) T (And (p # [rparen]) r)"
      using assms
    proof (rule ok_And_Cons)
      fix ts :: "node list" and r' :: string
      show "ok r' True no_tokens (And [rparen] r')" by (rule 1)
    qed (simp add: no_tokens_def)
  qed
  then have "\<And>r. ok r True T (And [p, rparen] r)" by simp
  then show ?thesis using ok_lparen by (intro ok_And_skip)
qed

lemma ok_empty_parens: "ok s True no_tokens (And [lparen, rparen] s)"
proof -
  have "\<And>r. ok r True no_tokens (And [rparen] r)"
    by (rule ok_And_single) (rule ok_rparen)
  then show ?thesis using ok_lparen by (intro ok_And_skip)
qed

lemma ok_word_fragment:
  "ok s True one_side (set_parse_action make_fragment (ws (Word init_chars exclude_chars)) s)"
proof -
  have "ok s True one_str (ws (Word init_chars exclude_chars) s)" by (intro ok_ws ok_Word)
  then show ?thesis using action_make_fragment by (rule ok_action)
qed

lemma ok_fragment_parser: "ok s True one_group (fragment_parser self s)"
proof -
  let ?item = "MatchFirst [attention self,
      set_parse_action make_fragment (ws (Word printables string_whitespace))]"
  have item: "\<And>r. ok r True (list_all att_child) (?item r)"
  proof -
    fix r :: string
    show "ok r True (list_all att_child) (?item r)"
    proof (rule ok_MatchFirst)
      fix p assume "p \<in> set [attention self,
          set_parse_action make_fragment (ws (Word printables string_whitespace))]"
      then consider "p = attention self"
        | "p = set_parse_action make_fragment (ws (Word printables string_whitespace))" by auto
      then show "ok r True (list_all att_child) (p r)"
      proof cases
        case 1
        show ?thesis unfolding 1 using ok_attention by (rule ok_mono) (simp_all add: one_side_all)
      next
        case 2
        show ?thesis unfolding 2 using ok_word_fragment
          by (rule ok_mono) (simp_all add: one_side_all)
      qed
    qed
  qed
  have "ok s True (list_all att_child) (OneOrMore ?item s)"
    using item by (intro ok_OneOrMore)
  then have "ok s True (\<lambda>ts. \<exists>cs. ts = [ParseResults cs] \<and> list_all att_child cs)
      (Group (OneOrMore ?item) s)" by (rule ok_Group)
  then have "ok s True one_group (Group (OneOrMore ?item) s)"
    by (rule ok_mono) (auto simp: one_group_def)
  then show ?thesis by (simp add: fragment_parser_def)
qed

lemma parse_string_ok:
  assumes "\<And>r. ok r b T (p r)"
  shows "case parse_string p x of
           Inr v \<Rightarrow> (\<exists>ts. v = ParseResults ts \<and> T ts)
         | Inl e \<Rightarrow> e = ParseException \<or> escapes e"
  using assms [of "expandtabs x"]
  by (auto simp: parse_string_def ok_def split: presult.splits)

lemma action_parse_fragment_str: "action_ok (parse_fragment_str self) one_str one_side"
proof -
  have "\<And>t. case parse_fragment_str self (ParseResults [PyStr t]) of
        Inr v \<Rightarrow> one_side (as_tokens v)
      | Inl e \<Rightarrow> e = ParseException \<or> e = IndexError \<or> escapes e"
  proof -
    fix t
    have "case parse_string (fragment_parser self) t of
           Inr v \<Rightarrow> (\<exists>ts. v = ParseResults ts \<and> one_group ts)
         | Inl e \<Rightarrow> e = ParseException \<or> escapes e"
      using ok_fragment_parser by (rule parse_string_ok)
    then show "case parse_fragment_str self (ParseResults [PyStr t]) of
        Inr v \<Rightarrow> one_side (as_tokens v)
      | Inl e \<Rightarrow> e = ParseException \<or> e = IndexError \<or> escapes e"
      by (auto simp: parse_fragment_str_def one_side_def one_group_def split: sum.splits)
  qed
  then show ?thesis by (auto simp: action_ok_def one_str_def)
qed

lemma ok_quoted_fragment: "ok s True one_side (quoted_fragment self s)"
proof -
  have "ok s True one_str (ws QuotedString s)" by (intro ok_ws ok_QuotedString)
  then show ?thesis
    unfolding quoted_fragment_def using action_parse_fragment_str by (rule ok_action)
qed

lemma ok_combined_words:
  assumes "\<And>p r. p \<in> set ps \<Longrightarrow> ok r True one_str (p r)"
  shows "ok s True one_str (Combine (OneOrMore (MatchFirst ps)) s)"
proof (rule ok_Combine, rule ok_OneOrMore, rule ok_MatchFirst)
  fix r :: string and p assume "p \<in> set ps"
  then have "ok r True one_str (p r)" by (rule assms)
  then show "ok r True (list_all is_PyStr) (p r)"
    by (rule ok_mono) (simp_all add: one_str_all)
qed

lemma ok_unquoted_fragment: "ok s True one_side (unquoted_fragment s)"
proof -
  have "ok s True one_str (Combine (OneOrMore (MatchFirst
          [Literal [CHR 0x5C, CHR 0x22],
           Literal [CHR 0x5C],
           Word printables (string_whitespace @ [CHR 0x5C, CHR 0x22])])) s)"
  proof (rule ok_combined_words)
    fix p and r :: string
    assume "p \<in> set [Literal [CHR 0x5C, CHR 0x22], Literal [CHR 0x5C],
           Word printables (string_whitespace @ [CHR 0x5C, CHR 0x22])]"
    then consider "p = Literal [CHR 0x5C, CHR 0x22]" | "p = Literal [CHR 0x5C]"
      | "p = Word printables (string_whitespace @ [CHR 0x5C, CHR 0x22])" by auto
    then show "ok r True one_str (p r)"
      by cases (simp_all add: ok_Literal ok_Word)
  qed
  then show ?thesis
    unfolding unquoted_fragment_def using action_make_fragment by (rule ok_action)
qed

lemma ok_paren_text: "ok s True one_str (paren_text s)"
  unfolding paren_text_def
proof (rule ok_combined_words)
  fix p and r :: string
  assume "p \<in> set [Literal [CHR 0x5C, CHR '')''], Literal [CHR 0x5C],
        Word printables (string_whitespace @ [CHR 0x5C, CHR '')'']),
        Word string_whitespace []]"
  then consider "p = Literal [CHR 0x5C, CHR '')'']" | "p = Literal [CHR 0x5C]"
    | "p = Word printables (string_whitespace @ [CHR 0x5C, CHR '')''])"
    | "p = Word string_whitespace []" by auto
  then show "ok r True one_str (p r)"
    by cases (simp_all add: ok_Literal ok_Word)
qed

lemma action_empty_fragment: "action_ok (\<lambda>x. make_fragment (PyStr [])) T one_side"
  by (simp add: action_ok_def one_side_def)

lemma ok_parenthesized_fragment: "ok s True one_side (parenthesized_fragment self s)"
  unfolding parenthesized_fragment_def
proof (rule ok_Or [where ?T0.0 = "\<lambda>ts. True"])
  fix t f
  assume "(t, f) \<in> set [(And [lparen, ws QuotedString, rparen],
          And [lparen, quoted_fragment self, rparen]),
         (And [lparen, rparen],
          set_parse_action (\<lambda>x. make_fragment (PyStr [])) (And [lparen, rparen])),
         (And [lparen, paren_text, rparen],
          And [lparen, set_parse_action (parse_fragment_str self) paren_text, rparen])]"
  then consider "t = And [lparen, ws QuotedString, rparen]"
    | "t = And [lparen, rparen]" | "t = And [lparen, paren_text, rparen]" by auto
  then show "ok s True (\<lambda>ts. True) (t s)"
  proof cases
    case 1
    have "\<And>r. ok r True one_str (ws QuotedString r)" by (intro ok_ws ok_QuotedString)
    then have "ok s True one_str (And [lparen, ws QuotedString, rparen] s)" by (rule ok_parens)
    then show ?thesis unfolding 1 by (rule ok_mono) simp_all
  next
    case 2
    show ?thesis unfolding 2 using ok_empty_parens by (rule ok_mono) simp_all
  next
    case 3
    have "ok s True one_str (And [lparen, paren_text, rparen] s)"
      using ok_paren_text by (rule ok_parens)
    then show ?thesis unfolding 3 by (rule ok_mono) simp_all
  qed
next
  fix t f
  assume "(t, f) \<in> set [(And [lparen, ws QuotedString, rparen],
          And [lparen, quoted_fragment self, rparen]),
         (And [lparen, rparen],
          set_parse_action (\<lambda>x. make_fragment (PyStr [])) (And [lparen, rparen])),
         (And [lparen, paren_text, rparen],
          And [lparen, set_parse_action (parse_fragment_str self) paren_text, rparen])]"
  then consider "f = And [lparen, quoted_fragment self, rparen]"
    | "f = set_parse_action (\<lambda>x. make_fragment (PyStr [])) (And [lparen, rparen])"
    | "f = And [lparen, set_parse_action (parse_fragment_str self) paren_text, rparen]" by auto
  then show "ok s True one_side (f s)"
  proof cases
    case 1
    show ?thesis unfolding 1 using ok_quoted_fragment by (rule ok_parens)
  next
    case 2
    show ?thesis unfolding 2 using ok_empty_parens action_empty_fragment by (rule ok_action)
  next
    case 3
    have "\<And>r. ok r True one_side (set_parse_action (parse_fragment_str self) paren_text r)"
      using ok_paren_text action_parse_fragment_str by (rule ok_action)
    then show ?thesis unfolding 3 by (rule ok_parens)
  qed
qed

lemma ok_empty_string: "ok s True one_side (empty_string s)"
proof -
  let ?q = "Suppress (ws (Literal [CHR 0x22, CHR 0x22]))"
  have q: "\<And>r. ok r True no_tokens (?q r)" by (rule ok_lit_suppress) simp
  have "ok s True no_tokens (MatchFirst [And [lparen, rparen], ?q, And [lparen, ?q, rparen]] s)"
  proof (rule ok_MatchFirst)
    fix p assume "p \<in> set [And [lparen, rparen], ?q, And [lparen, ?q, rparen]]"
    then consider "p = And [lparen, rparen]" | "p = ?q" | "p = And [lparen, ?q, rparen]" by auto
    then show "ok s True no_tokens (p s)"
    proof cases
      case 1
      show ?thesis unfolding 1 by (rule ok_empty_parens)
    next
      case 2
      show ?thesis unfolding 2 by (rule q)
    next
      case 3
      show ?thesis unfolding 3 using q by (rule ok_parens)
    qed
  qed
  moreover have "action_ok (\<lambda>x. Inr (Fragment [] 1)) no_tokens one_side"
    by (simp add: action_ok_def one_side_def)
  ultimately show ?thesis unfolding empty_string_def by (rule ok_action)
qed

lemma ok_original_fragment: "ok s True one_side (original_fragment self s)"
  unfolding original_fragment_def
proof (rule ok_MatchFirst)
  fix p assume "p \<in> set [empty_string, quoted_fragment self, parenthesized_fragment self,
                 unquoted_fragment]"
  then consider "p = empty_string" | "p = quoted_fragment self"
    | "p = parenthesized_fragment self" | "p = unquoted_fragment" by auto
  then show "ok s True one_side (p s)"
    by cases (simp_all add: ok_empty_string ok_quoted_fragment ok_parenthesized_fragment
        ok_unquoted_fragment)
qed

lemma ok_edited_fragment: "ok s True one_side (edited_fragment self s)"
  unfolding edited_fragment_def by (rule ok_parenthesized_fragment)

lemma action_make_cross_attention_substitute:
  "action_ok make_cross_attention_substitute (list_all att_child) (list_all part_tok)"
  by (auto simp: action_ok_def make_cross_attention_substitute_def list_all_length
      split: sum.splits)

lemma ok_cross_attention_substitute:
  "ok s True (list_all part_tok) (cross_attention_substitute self s)"
proof -
  have "ok s True (list_all att_child)
      (And (original_fragment self # [Suppress (ws (Literal ''.swap'')), edited_fragment self]) s)"
  proof (rule ok_And_all)
    show "ok s True (list_all att_child) (original_fragment self s)"
      using ok_original_fragment by (rule ok_mono) (simp_all add: one_side_all)
  next
    fix q and r :: string
    assume "q \<in> set [Suppress (ws (Literal ''.swap'')), edited_fragment self]"
    then consider "q = Suppress (ws (Literal ''.swap''))" | "q = edited_fragment self" by auto
    then show "ok r False (list_all att_child) (q r)"
    proof cases
      case 1
      have "ok r True no_tokens (Suppress (ws (Literal ''.swap'')) r)"
        by (rule ok_lit_suppress) simp
      then show ?thesis unfolding 1 by (rule ok_mono) (simp_all add: no_tokens_def)
    next
      case 2
      show ?thesis unfolding 2 using ok_edited_fragment
        by (rule ok_mono) (simp_all add: one_side_all)
    qed
  qed
  then show ?thesis
    unfolding cross_attention_substitute_def
    using action_make_cross_attention_substitute by (rule ok_action)
qed

lemma ok_prompt_part: "ok s True (list_all part_tok) (prompt_part self s)"
  unfolding prompt_part_def
proof (rule ok_MatchFirst)
  fix p assume "p \<in> set [cross_attention_substitute self, attention self, quoted_fragment self,
                 unquoted_fragment]"
  then consider "p = cross_attention_substitute self" | "p = attention self"
    | "p = quoted_fragment self" | "p = unquoted_fragment" by auto
  then show "ok s True (list_all part_tok) (p s)"
  proof cases
    case 1
    show ?thesis unfolding 1 by (rule ok_cross_attention_substitute)
  next
    case 2
    show ?thesis unfolding 2 using ok_attention by (rule ok_mono) (simp_all add: one_side_parts)
  next
    case 3
    show ?thesis unfolding 3 using ok_quoted_fragment
      by (rule ok_mono) (simp_all add: one_side_parts)
  next
    case 4
    show ?thesis unfolding 4 using ok_unquoted_fragment
      by (rule ok_mono) (simp_all add: one_side_parts)
  qed
qed

lemma ok_blanks:
  "ok s False (list_all part_tok) (ws (ZeroOrMore (ws (Word string_whitespace []))) s)"
proof (rule ok_ws, rule ok_ZeroOrMore)
  fix r :: string
  have "ok r True one_str (ws (Word string_whitespace []) r)" by (intro ok_ws ok_Word)
  then show "ok r True (list_all part_tok) (ws (Word string_whitespace []) r)"
    by (rule ok_mono) (auto simp: one_str_def)
qed

lemma ok_empty_prompt: "ok s True (list_all part_tok) (empty_prompt s)"
  unfolding empty_prompt_def
proof (rule ok_MatchFirst)
  let ?b = "ws (ZeroOrMore (ws (Word string_whitespace [])))"
  fix p assume "p \<in> set [And [lparen, ?b, rparen], And [quotes, ?b, quotes]]"
  then consider "p = And [lparen, ?b, rparen]" | "p = And [quotes, ?b, quotes]" by auto
  then show "ok s True (list_all part_tok) (p s)"
  proof cases
    case 1
    show ?thesis unfolding 1 using ok_blanks by (rule ok_parens)
  next
    case 2
    have "ok s True (list_all part_tok) (And (quotes # [?b, quotes]) s)"
    proof (rule ok_And_all)
      show "ok s True (list_all part_tok) (quotes s)"
        using ok_quotes by (rule ok_mono) (simp_all add: no_tokens_def)
    next
      fix q and r :: string
      assume "q \<in> set [?b, quotes]"
      then consider "q = ?b" | "q = quotes" by auto
      then show "ok r False (list_all part_tok) (q r)"
      proof cases
        case 1
        show ?thesis unfolding 1 by (rule ok_blanks)
      next
        case 2
        show ?thesis unfolding 2 using ok_quotes by (rule ok_mono) (simp_all add: no_tokens_def)
      qed
    qed
    then show ?thesis unfolding 2 by simp
  qed
qed

lemma action_make_prompt:
  "action_ok make_prompt (one_of (group_of part_tok)) (one_of raw_prompt)"
  by (auto simp: action_ok_def make_prompt_def one_of_def group_of_def raw_prompt_def
      Prompt_init_def)

lemma ok_prompt: "ok s True (one_of raw_prompt) (prompt self s)"
proof -
  let ?body = "MatchFirst [OneOrMore (prompt_part self), empty_prompt]"
  have "ok s True (list_all part_tok) (?body s)"
  proof (rule ok_MatchFirst)
    fix p assume "p \<in> set [OneOrMore (prompt_part self), empty_prompt]"
    then consider "p = OneOrMore (prompt_part self)" | "p = empty_prompt" by auto
    then show "ok s True (list_all part_tok) (p s)"
    proof cases
      case 1
      show ?thesis unfolding 1 by (rule ok_OneOrMore) (rule ok_prompt_part)
    next
      case 2
      show ?thesis unfolding 2 by (rule ok_empty_prompt)
    qed
  qed
  then have "ok s True (\<lambda>ts. \<exists>cs. ts = [ParseResults cs] \<and> list_all part_tok cs) (Group ?body s)"
    by (rule ok_Group)
  then have g: "ok s True (one_of (group_of part_tok)) (Group ?body s)"
    by (rule ok_mono) (auto simp: one_of_def group_of_def)
  have "\<And>r. ok r False no_tokens (And [StringEnd] r)"
    by (rule ok_And_single) (rule ok_StringEnd)
  with g have "ok s True (one_of (group_of part_tok)) (And [Group ?body, StringEnd] s)"
    by (rule ok_And_then_skip)
  then show ?thesis unfolding prompt_def using action_make_prompt by (rule ok_action)
qed

subsection \<open>Blends and conjunctions\<close>

lemma one_of_all: "one_of Q ts \<Longrightarrow> list_all Q ts"
  by (auto simp: one_of_def)

lemma raw_prompt_branch: "raw_prompt x \<Longrightarrow> raw_branch x"
  by (simp add: raw_branch_def)

lemma raw_prompts_forced: "list_all raw_branch ps \<Longrightarrow> force_prompts ps = Inr ps"
  by (rule force_prompts_id) (auto simp: list_all_iff raw_branch_def raw_prompt_def)

lemma action_make_prompt_from_quoted_string:
  "action_ok (make_prompt_from_quoted_string self) one_str (one_of raw_prompt)"
proof -
  have "\<And>t. case make_prompt_from_quoted_string self (ParseResults [PyStr t]) of
        Inr v \<Rightarrow> one_of raw_prompt (as_tokens v)
      | Inl e \<Rightarrow> e = ParseException \<or> e = IndexError \<or> escapes e"
  proof -
    fix t
    have "case parse_string (prompt self) (butlast (tl t)) of
           Inr v \<Rightarrow> (\<exists>ts. v = ParseResults ts \<and> one_of raw_prompt ts)
         | Inl e \<Rightarrow> e = ParseException \<or> escapes e"
      using ok_prompt by (rule parse_string_ok)
    then show "case make_prompt_from_quoted_string self (ParseResults [PyStr t]) of
        Inr v \<Rightarrow> one_of raw_prompt (as_tokens v)
      | Inl e \<Rightarrow> e = ParseException \<or> e = IndexError \<or> escapes e"
      by (auto simp: make_prompt_from_quoted_string_def one_of_def raw_prompt_def Prompt_init_def
          is_BaseFragment_def Let_def split: sum.splits if_splits)
  qed
  then show ?thesis by (auto simp: action_ok_def one_str_def)
qed

lemma ok_quoted_prompt: "ok s True (one_of raw_prompt) (quoted_prompt self s)"
  unfolding quoted_prompt_def
  using ok_dbl_quoted_string action_make_prompt_from_quoted_string by (rule ok_action)

lemma ok_blend_terms: "ok s True (list_all raw_prompt) (blend_terms self s)"
  unfolding blend_terms_def
proof (rule ok_delimited_list)
  fix r :: string
  show "ok r True (list_all raw_prompt) (quoted_prompt self r)"
    using ok_quoted_prompt by (rule ok_mono) (simp_all add: one_of_all)
qed simp

lemma ok_blend_weights: "ok s True (list_all is_PyFloat) (blend_weights s)"
  unfolding blend_weights_def
proof (rule ok_delimited_list)
  fix r :: string
  show "ok r True (list_all is_PyFloat) (number r)"
    using ok_number by (rule ok_mono) (auto simp: one_float_def)
qed simp

lemma ok_group_of:
  assumes "ok s b (list_all Q) (p s)"
  shows "ok s b (one_of (group_of Q)) (Group p s)"
proof -
  have "ok s b (\<lambda>ts. \<exists>cs. ts = [ParseResults cs] \<and> list_all Q cs) (Group p s)"
    using assms by (rule ok_Group)
  then show ?thesis by (rule ok_mono) (auto simp: one_of_def group_of_def)
qed

lemma py_floats_ok:
  "list_all is_PyFloat wts \<Longrightarrow> \<exists>fs. py_floats wts = Inr fs \<and> length fs = length wts"
proof (induction wts)
  case Nil
  then show ?case by simp
next
  case (Cons x xs)
  then obtain f where "x = PyFloat f" by (cases x) auto
  then show ?case using Cons by auto
qed

lemma action_make_blend:
  "action_ok make_blend (\<lambda>ts. \<exists>cs. ts = [ParseResults cs] \<and> blend_tokens cs) (one_of raw_branch)"
proof -
  have "\<And>ps wts. list_all raw_prompt ps \<Longrightarrow> list_all is_PyFloat wts \<Longrightarrow>
      (case make_blend (ParseResults [ParseResults [ParseResults ps, ParseResults wts]]) of
        Inr v \<Rightarrow> one_of raw_branch (as_tokens v)
      | Inl e \<Rightarrow> e = ParseException \<or> e = IndexError \<or> escapes e)"
  proof -
    fix ps wts assume a: "list_all raw_prompt ps" "list_all is_PyFloat wts"
    obtain fs where fs: "py_floats wts = Inr fs" "length fs = length wts"
      using py_floats_ok [OF a(2)] by auto
    show "case make_blend (ParseResults [ParseResults [ParseResults ps, ParseResults wts]]) of
        Inr v \<Rightarrow> one_of raw_branch (as_tokens v)
      | Inl e \<Rightarrow> e = ParseException \<or> e = IndexError \<or> escapes e"
      using a(1) fs by (auto simp: make_blend_def Blend_init_def one_of_def raw_branch_def)
  qed
  then show ?thesis by (auto simp: action_ok_def blend_tokens_def)
qed

lemma ok_weight_parens:
  assumes "\<And>r. ok r b T (p r)"
  shows "ok s True T (And [rparen, Suppress (ws (Literal (CHR ''.'' # name))), lparen, p, rparen] s)"
proof -
  have 1: "\<And>r. ok r True T (And [lparen, p, rparen] r)" using assms by (rule ok_parens)
  have "\<And>r. ok r True no_tokens (Suppress (ws (Literal (CHR ''.'' # name))) r)"
    by (rule ok_lit_suppress) simp
  then have "\<And>r. ok r True T (And [Suppress (ws (Literal (CHR ''.'' # name))), lparen, p, rparen] r)"
    using 1 by (rule ok_And_skip)
  then show ?thesis using ok_rparen by (intro ok_And_skip)
qed

lemma ok_blend: "ok s True (one_of raw_branch) (blend self s)"
proof -
  let ?tail = "[rparen, Suppress (ws (Literal ''.blend'')), lparen, Group blend_weights, rparen]"
  have "\<And>r. ok r True (one_of (group_of is_PyFloat)) (Group blend_weights r)"
    using ok_blend_weights by (rule ok_group_of)
  then have t: "\<And>r. ok r True (one_of (group_of is_PyFloat)) (And ?tail r)"
    by (rule ok_weight_parens)
  have g: "\<And>r. ok r True (one_of (group_of raw_prompt)) (Group (blend_terms self) r)"
    using ok_blend_terms by (rule ok_group_of)
  have "\<And>r. ok r True blend_tokens (And (Group (blend_terms self) # ?tail) r)"
    using g t by (rule ok_And_pair) (auto simp: one_of_def group_of_def blend_tokens_def)
  then have "ok s True blend_tokens (And (lparen # Group (blend_terms self) # ?tail) s)"
    using ok_lparen by (intro ok_And_skip)
  then have "ok s True (\<lambda>ts. \<exists>cs. ts = [ParseResults cs] \<and> blend_tokens cs)
      (Group (And (lparen # Group (blend_terms self) # ?tail)) s)" by (rule ok_Group)
  then show ?thesis unfolding blend_def using action_make_blend by (rule ok_action)
qed

lemma ok_conjunction_with_parens_and_quotes:
  "ok s True (\<lambda>ts. \<exists>cs. ts = [ParseResults cs] \<and> conjunction_tokens cs)
     (conjunction_with_parens_and_quotes self s)"
proof -
  let ?T = "\<lambda>ts. ts = [] \<or> one_of (group_of is_PyFloat) ts"
  let ?opt = "ws (Optional (Group conjunction_weights))"
  let ?tail = "[rparen, Suppress (ws (Literal ''.and'')), lparen, ?opt, rparen]"
  have "\<And>r. ok r True (list_all is_PyFloat) (conjunction_weights r)"
    unfolding conjunction_weights_def by (rule ok_blend_weights)
  then have "\<And>r. ok r True (one_of (group_of is_PyFloat)) (Group conjunction_weights r)"
    by (rule ok_group_of)
  then have "\<And>r. ok r True ?T (Group conjunction_weights r)"
    by (rule ok_mono) simp_all
  then have "\<And>r. ok r False ?T (Optional (Group conjunction_weights) r)"
    by (rule ok_Optional) simp
  then have "\<And>r. ok r False ?T (?opt r)" by (intro ok_ws)
  then have t: "\<And>r. ok r True ?T (And ?tail r)" by (rule ok_weight_parens)
  have "\<And>r. ok r True (list_all raw_prompt) (conjunction_terms self r)"
    unfolding conjunction_terms_def by (rule ok_blend_terms)
  then have g: "\<And>r. ok r True (one_of (group_of raw_prompt)) (Group (conjunction_terms self) r)"
    by (rule ok_group_of)
  have "\<And>r. ok r True conjunction_tokens (And (Group (conjunction_terms self) # ?tail) r)"
    using g t by (rule ok_And_pair) (auto simp: one_of_def group_of_def conjunction_tokens_def)
  then have "ok s True conjunction_tokens (And (lparen # Group (conjunction_terms self) # ?tail) s)"
    using ok_lparen by (intro ok_And_skip)
  then have "ok s True (\<lambda>ts. \<exists>cs. ts = [ParseResults cs] \<and> conjunction_tokens cs)
      (Group (And (lparen # Group (conjunction_terms self) # ?tail)) s)" by (rule ok_Group)
  then show ?thesis by (simp add: conjunction_with_parens_and_quotes_def)
qed

lemma Conjunction_init_raw:
  assumes "list_all raw_branch ps"
  shows "Conjunction_init ps (Some wts) = Inl ParsingException \<or>
         (Conjunction_init ps (Some wts) = Inr (Conjunction ps wts) \<and> raw_root (Conjunction ps wts))"
  using assms raw_prompts_forced [OF assms]
  by (auto simp: Conjunction_init_def raw_root_def)

lemma action_make_conjunction:
  "action_ok make_conjunction (\<lambda>ts. \<exists>cs. ts = [ParseResults cs] \<and> conjunction_tokens cs)
     (one_of raw_root)"
proof -
  have 1: "\<And>ps. list_all raw_prompt ps \<Longrightarrow>
      (case make_conjunction (ParseResults [ParseResults [ParseResults ps]]) of
        Inr v \<Rightarrow> one_of raw_root (as_tokens v)
      | Inl e \<Rightarrow> e = ParseException \<or> e = IndexError \<or> escapes e)"
  proof -
    fix ps assume a: "list_all raw_prompt ps"
    then have b: "list_all raw_branch ps" by (simp add: list_all_iff raw_prompt_branch)
    show "case make_conjunction (ParseResults [ParseResults [ParseResults ps]]) of
        Inr v \<Rightarrow> one_of raw_root (as_tokens v)
      | Inl e \<Rightarrow> e = ParseException \<or> e = IndexError \<or> escapes e"
      using Conjunction_init_raw [OF b, of "replicate (length ps) 1"]
      by (auto simp: make_conjunction_def one_of_def)
  qed
  have 2: "\<And>ps wts. list_all raw_prompt ps \<Longrightarrow> list_all is_PyFloat wts \<Longrightarrow>
      (case make_conjunction (ParseResults [ParseResults [ParseResults ps, ParseResults wts]]) of
        Inr v \<Rightarrow> one_of raw_root (as_tokens v)
      | Inl e \<Rightarrow> e = ParseException \<or> e = IndexError \<or> escapes e)"
  proof -
    fix ps wts assume a: "list_all raw_prompt ps" "list_all is_PyFloat wts"
    then have b: "list_all raw_branch ps" by (simp add: list_all_iff raw_prompt_branch)
    obtain fs where fs: "py_floats wts = Inr fs" using py_floats_ok [OF a(2)] by auto
    show "case make_conjunction (ParseResults [ParseResults [ParseResults ps, ParseResults wts]]) of
        Inr v \<Rightarrow> one_of raw_root (as_tokens v)
      | Inl e \<Rightarrow> e = ParseException \<or> e = IndexError \<or> escapes e"
      using Conjunction_init_raw [OF b, of fs] fs
      by (auto simp: make_conjunction_def one_of_def)
  qed
  show ?thesis
    unfolding action_ok_def conjunction_tokens_def using 1 2 by blast
qed

lemma action_make_implicit_conjunction:
  "action_ok make_implicit_conjunction (list_all raw_branch) (one_of raw_root)"
proof -
  have "\<And>ts. list_all raw_branch ts \<Longrightarrow>
      (case make_implicit_conjunction (ParseResults ts) of
        Inr v \<Rightarrow> one_of raw_root (as_tokens v)
      | Inl e \<Rightarrow> e = ParseException \<or> e = IndexError \<or> escapes e)"
  proof -
    fix ts assume a: "list_all raw_branch ts"
    show "case make_implicit_conjunction (ParseResults ts) of
        Inr v \<Rightarrow> one_of raw_root (as_tokens v)
      | Inl e \<Rightarrow> e = ParseException \<or> e = IndexError \<or> escapes e"
      using a raw_prompts_forced [OF a]
      by (auto simp: make_implicit_conjunction_def Conjunction_init_def one_of_def raw_root_def)
  qed
  then show ?thesis by (simp add: action_ok_def)
qed

lemma ok_implicit_conjunction: "ok s True (one_of raw_root) (implicit_conjunction self s)"
proof -
  have "ok s True (list_all raw_branch) (OneOrMore (MatchFirst [blend self, prompt self]) s)"
  proof (rule ok_OneOrMore, rule ok_MatchFirst)
    fix r :: string and p assume "p \<in> set [blend self, prompt self]"
    then consider "p = blend self" | "p = prompt self" by auto
    then show "ok r True (list_all raw_branch) (p r)"
    proof cases
      case 1
      show ?thesis unfolding 1 using ok_blend by (rule ok_mono) (simp_all add: one_of_all)
    next
      case 2
      show ?thesis unfolding 2 using ok_prompt
        by (rule ok_mono) (auto simp: one_of_def raw_prompt_branch)
    qed
  qed
  then show ?thesis
    unfolding implicit_conjunction_def using action_make_implicit_conjunction by (rule ok_action)
qed

lemma ok_conjunction: "ok s True (one_of raw_root) (conjunction self s)"
  unfolding conjunction_def
proof (rule ok_MatchFirst)
  fix p
  assume "p \<in> set [set_parse_action make_conjunction (conjunction_with_parens_and_quotes self),
                 implicit_conjunction self]"
  then consider
    "p = set_parse_action make_conjunction (conjunction_with_parens_and_quotes self)"
    | "p = implicit_conjunction self" by auto
  then show "ok s True (one_of raw_root) (p s)"
  proof cases
    case 1
    show ?thesis unfolding 1
      using ok_conjunction_with_parens_and_quotes action_make_conjunction by (rule ok_action)
  next
    case 2
    show ?thesis unfolding 2 by (rule ok_implicit_conjunction)
  qed
qed

subsection \<open>Flattening the raw tree\<close>

lemma flatten_att_child:
  "att_child n \<Longrightarrow> flatten_internal n scale rs = Inl ParsingException \<or>
     (\<exists>fs. flatten_internal n scale rs = Inr (rs @ fs) \<and> list_all is_Fragment fs)"
  and flatten_each_att_child:
  "list_all att_child ns \<Longrightarrow> flatten_each ns scale' rs' = Inl ParsingException \<or>
     (\<exists>fs. flatten_each ns scale' rs' = Inr (rs' @ fs) \<and> list_all is_Fragment fs)"
proof (induction n scale rs and ns scale' rs' rule: flatten_internal_flatten_each.induct)
  case (9 x xs weight_scale results)
  from "9.prems" have x: "att_child x" and xs: "list_all att_child xs" by simp_all
  from "9.IH"(1) [OF x] show ?case
  proof
    assume "flatten_internal x weight_scale results = Inl ParsingException"
    then show ?thesis by simp
  next
    assume "\<exists>fs. flatten_internal x weight_scale results = Inr (results @ fs) \<and>
        list_all is_Fragment fs"
    then obtain fs where fs: "flatten_internal x weight_scale results = Inr (results @ fs)"
        "list_all is_Fragment fs" by auto
    from "9.IH"(2) [OF fs(1) xs] show ?thesis
      using fs by auto
  qed
qed simp_all

lemma fragments_items: "list_all is_Fragment fs \<Longrightarrow> list_all frag_item fs"
proof (induction fs)
  case Nil
  then show ?case by simp
next
  case (Cons f fs)
  then show ?case by (cases f) simp_all
qed

lemma flatten_part_tok:
  assumes "part_tok n"
  shows "flatten_internal n scale rs = Inl ParsingException \<or>
     (\<exists>fs. flatten_internal n scale rs = Inr (rs @ fs) \<and> list_all frag_item fs)"
proof (cases "att_child n")
  case True
  then show ?thesis using flatten_att_child [of n scale rs] fragments_items by auto
next
  case False
  then obtain a b where n: "n = CrossAttentionControlSubstitute a b" "att_child a" "att_child b"
    using assms by (cases n) simp_all
  show ?thesis
    using flatten_att_child [OF n(2), of scale "[]"] flatten_att_child [OF n(3), of scale "[]"]
    by (auto simp: n(1))
qed

lemma flatten_each_part_tok:
  "list_all part_tok ns \<Longrightarrow> flatten_each ns scale rs = Inl ParsingException \<or>
     (\<exists>fs. flatten_each ns scale rs = Inr (rs @ fs) \<and> list_all frag_item fs)"
proof (induction ns arbitrary: rs)
  case Nil
  then show ?case by simp
next
  case (Cons x xs)
  then have x: "part_tok x" and xs: "list_all part_tok xs" by simp_all
  from flatten_part_tok [OF x, of scale rs] show ?case
  proof
    assume "flatten_internal x scale rs = Inl ParsingException"
    then show ?thesis by simp
  next
    assume "\<exists>fs. flatten_internal x scale rs = Inr (rs @ fs) \<and> list_all frag_item fs"
    then obtain fs where fs: "flatten_internal x scale rs = Inr (rs @ fs)" "list_all frag_item fs"
      by auto
    from Cons.IH [OF xs, of "rs @ fs"] show ?thesis using fs by auto
  qed
qed

lemma frag_item_cases:
  "frag_item x \<Longrightarrow> (\<exists>t w. x = Fragment t w) \<or>
     (\<exists>xs ys. x = CrossAttentionControlSubstitute (PyList xs) (PyList ys) \<and>
        list_all is_Fragment xs \<and> list_all is_Fragment ys)"
  by (induction x rule: frag_item.induct) simp_all

lemma fuse_item_items:
  assumes "list_all frag_item rs"
  shows "\<exists>out. fuse_item rs (Fragment t w) = Inr out \<and> list_all frag_item out \<and>
     (list_all is_Fragment rs \<longrightarrow> list_all is_Fragment out)"
proof (cases rs rule: rev_cases)
  case Nil
  then show ?thesis by (simp add: fuse_item_def)
next
  case (snoc ys y)
  then have "frag_item y" and ys: "list_all frag_item ys" using assms by simp_all
  then show ?thesis using frag_item_cases [of y]
    by (auto simp: fuse_item_def snoc)
qed

lemma fuse_loop_fragments:
  "list_all is_Fragment xs \<Longrightarrow> list_all is_Fragment rs \<Longrightarrow>
     \<exists>out. fuse_loop rs xs = Inr out \<and> list_all is_Fragment out"
proof (induction xs arbitrary: rs)
  case Nil
  then show ?case by simp
next
  case (Cons x xs)
  then obtain t w where x: "x = Fragment t w" by (cases x) auto
  have "list_all frag_item rs" using Cons.prems(2) by (rule fragments_items)
  then obtain out where out: "fuse_item rs (Fragment t w) = Inr out" "list_all is_Fragment out"
    using fuse_item_items [of rs t w] Cons.prems(2) by auto
  show ?case using Cons.IH [OF _ out(2)] Cons.prems(1) out(1) by (simp add: x)
qed

lemma fuse_loop_items:
  "list_all frag_item xs \<Longrightarrow> list_all frag_item rs \<Longrightarrow>
     \<exists>out. fuse_loop rs xs = Inr out \<and> list_all frag_item out"
proof (induction xs arbitrary: rs)
  case Nil
  then show ?case by simp
next
  case (Cons x xs)
  from Cons.prems(1) have x: "frag_item x" and xs: "list_all frag_item xs" by simp_all
  from frag_item_cases [OF x] show ?case
  proof
    assume "\<exists>t w. x = Fragment t w"
    then obtain t w where f: "x = Fragment t w" by auto
    obtain out where out: "fuse_item rs (Fragment t w) = Inr out" "list_all frag_item out"
      using fuse_item_items [OF Cons.prems(2), of t w] by auto
    show ?thesis using Cons.IH [OF xs out(2)] out(1) by (simp add: f)
  next
    assume "\<exists>as bs. x = CrossAttentionControlSubstitute (PyList as) (PyList bs) \<and>
        list_all is_Fragment as \<and> list_all is_Fragment bs"
    then obtain as bs where c: "x = CrossAttentionControlSubstitute (PyList as) (PyList bs)"
        "list_all is_Fragment as" "list_all is_Fragment bs" by auto
    obtain fa where fa: "fuse_loop [] as = Inr fa" "list_all is_Fragment fa"
      using fuse_loop_fragments [OF c(2), of "[]"] by auto
    obtain fb where fb: "fuse_loop [] bs = Inr fb" "list_all is_Fragment fb"
      using fuse_loop_fragments [OF c(3), of "[]"] by auto
    have "list_all frag_item (rs @ [CrossAttentionControlSubstitute (PyList fa) (PyList fb)])"
      using Cons.prems(2) fa(2) fb(2) by simp
    from Cons.IH [OF xs this] show ?thesis using fa(1) fb(1) by (simp add: c(1))
  qed
qed

lemma convert_parts_items: "list_all frag_item xs \<Longrightarrow> convert_parts xs = Inr xs"
proof (rule convert_parts_fragments)
  assume "list_all frag_item xs"
  then show "list_all (\<lambda>c. is_Fragment c \<or> is_Substitute c) xs"
    using frag_item_cases by (fastforce simp: list_all_iff)
qed

lemma flatten_raw_prompt:
  assumes "raw_prompt p"
  shows "flatten_internal p scale rs = Inl ParsingException \<or>
     (\<exists>q. flatten_internal p scale rs = Inr (rs @ [q]) \<and> is_FlattenedPrompt q)"
proof -
  from assms obtain cs where p: "p = Prompt cs" "list_all part_tok cs"
    by (auto simp: raw_prompt_def)
  from flatten_each_part_tok [OF p(2), of scale "[]"] show ?thesis
  proof
    assume "flatten_each cs scale [] = Inl ParsingException"
    then show ?thesis by (simp add: p(1))
  next
    assume "\<exists>fs. flatten_each cs scale [] = Inr ([] @ fs) \<and> list_all frag_item fs"
    then obtain fs where fs: "flatten_each cs scale [] = Inr fs" "list_all frag_item fs" by auto
    obtain out where out: "fuse_loop [] fs = Inr out" "list_all frag_item out"
      using fuse_loop_items [OF fs(2), of "[]"] by auto
    have "convert_parts out = Inr out" using out(2) by (rule convert_parts_items)
    then show ?thesis
      using fs(1) out(1) by (simp add: p(1) fuse_fragments_def FlattenedPrompt_init_def)
  qed
qed

lemma flatten_each_raw_prompts:
  "list_all raw_prompt ps \<Longrightarrow> flatten_each ps scale rs = Inl ParsingException \<or>
     (\<exists>qs. flatten_each ps scale rs = Inr (rs @ qs) \<and> length qs = length ps \<and>
        list_all is_FlattenedPrompt qs)"
proof (induction ps arbitrary: rs)
  case Nil
  then show ?case by simp
next
  case (Cons p ps)
  then have p: "raw_prompt p" and ps: "list_all raw_prompt ps" by simp_all
  from flatten_raw_prompt [OF p, of scale rs] show ?case
  proof
    assume "flatten_internal p scale rs = Inl ParsingException"
    then show ?thesis by simp
  next
    assume "\<exists>q. flatten_internal p scale rs = Inr (rs @ [q]) \<and> is_FlattenedPrompt q"
    then obtain q where q: "flatten_internal p scale rs = Inr (rs @ [q])" "is_FlattenedPrompt q"
      by auto
    from Cons.IH [OF ps, of "rs @ [q]"] show ?thesis
    proof
      assume "flatten_each ps scale (rs @ [q]) = Inl ParsingException"
      then show ?thesis using q(1) by simp
    next
      assume "\<exists>qs. flatten_each ps scale (rs @ [q]) = Inr ((rs @ [q]) @ qs) \<and>
          length qs = length ps \<and> list_all is_FlattenedPrompt qs"
      then obtain qs where qs: "flatten_each ps scale (rs @ [q]) = Inr (rs @ q # qs)"
          "length qs = length ps" "list_all is_FlattenedPrompt qs" by auto
      have "flatten_each (p # ps) scale rs = Inr (rs @ (q # qs))" using q(1) qs(1) by simp
      moreover have "length (q # qs) = length (p # ps)" using qs(2) by simp
      moreover have "list_all is_FlattenedPrompt (q # qs)" using q(2) qs(3) by simp
      ultimately show ?thesis by blast
    qed
  qed
qed

lemma flatten_raw_branch:
  assumes "raw_branch b"
  shows "flatten_internal b scale rs = Inl ParsingException \<or>
     (\<exists>q. flatten_internal b scale rs = Inr (rs @ [q]) \<and> (is_FlattenedPrompt q \<or> is_Blend q))"
proof (cases "raw_prompt b")
  case True
  then show ?thesis using flatten_raw_prompt [of b scale rs] by auto
next
  case False
  then obtain ps wts nw where b: "b = Blend ps wts nw" "length ps = length wts"
      "list_all raw_prompt ps" using assms by (auto simp: raw_branch_def)
  from flatten_each_raw_prompts [OF b(3), of scale "[]"] show ?thesis
  proof
    assume "flatten_each ps scale [] = Inl ParsingException"
    then show ?thesis by (simp add: b(1))
  next
    assume "\<exists>qs. flatten_each ps scale [] = Inr ([] @ qs) \<and> length qs = length ps \<and>
        list_all is_FlattenedPrompt qs"
    then obtain qs where qs: "flatten_each ps scale [] = Inr qs" "length qs = length ps"
        "list_all is_FlattenedPrompt qs" by auto
    have "Blend_init qs wts True = Inr (Blend qs wts True)"
      using qs(2,3) b(2) by (auto simp: Blend_init_def list_all_iff)
    then show ?thesis using qs(1) by (simp add: b(1))
  qed
qed

lemma flatten_parts_raw:
  "list_all raw_branch ps \<Longrightarrow> flatten_parts ps = Inl ParsingException \<or>
     (\<exists>qs. flatten_parts ps = Inr qs \<and> length qs = length ps \<and>
        list_all (\<lambda>q. is_FlattenedPrompt q \<or> is_Blend q) qs)"
proof (induction ps)
  case Nil
  then show ?case by simp
next
  case (Cons p ps)
  then have p: "raw_branch p" and ps: "list_all raw_branch ps" by simp_all
  from flatten_raw_branch [OF p, of 1 "[]"] show ?case
  proof
    assume "flatten_internal p 1 [] = Inl ParsingException"
    then show ?thesis by simp
  next
    assume "\<exists>q. flatten_internal p 1 [] = Inr ([] @ [q]) \<and> (is_FlattenedPrompt q \<or> is_Blend q)"
    then obtain q where q: "flatten_internal p 1 [] = Inr [q]" "is_FlattenedPrompt q \<or> is_Blend q"
      by auto
    from Cons.IH [OF ps] show ?thesis
    proof
      assume "flatten_parts ps = Inl ParsingException"
      then show ?thesis using q(1) by simp
    next
      assume "\<exists>qs. flatten_parts ps = Inr qs \<and> length qs = length ps \<and>
          list_all (\<lambda>q. is_FlattenedPrompt q \<or> is_Blend q) qs"
      then obtain qs where qs: "flatten_parts ps = Inr qs" "length qs = length ps"
          "list_all (\<lambda>q. is_FlattenedPrompt q \<or> is_Blend q) qs" by auto
      have "flatten_parts (p # ps) = Inr (q # qs)" using q(1) qs(1) by simp
      moreover have "length (q # qs) = length (p # ps)" using qs(2) by simp
      moreover have "list_all (\<lambda>q. is_FlattenedPrompt q \<or> is_Blend q) (q # qs)"
        using q(2) qs(3) by simp
      ultimately show ?thesis by blast
    qed
  qed
qed

lemma flatten_raw_root:
  assumes "raw_root n"
  shows "flatten n = Inl ParsingException \<or> (\<exists>ps wts. flatten n = Inr (Conjunction ps wts))"
proof -
  from assms obtain ps wts where n: "n = Conjunction ps wts" "length ps = length wts"
      "list_all raw_branch ps" by (auto simp: raw_root_def)
  from flatten_parts_raw [OF n(3)] show ?thesis
  proof
    assume "flatten_parts ps = Inl ParsingException"
    then show ?thesis by (simp add: n(1))
  next
    assume "\<exists>qs. flatten_parts ps = Inr qs \<and> length qs = length ps \<and>
        list_all (\<lambda>q. is_FlattenedPrompt q \<or> is_Blend q) qs"
    then obtain qs where qs: "flatten_parts ps = Inr qs" "length qs = length ps"
        "list_all (\<lambda>q. is_FlattenedPrompt q \<or> is_Blend q) qs" by auto
    have "force_prompts qs = Inr qs"
      using qs(3) by (intro force_prompts_id) (auto simp: list_all_iff)
    then show ?thesis using qs(1,2) n(2) by (simp add: n(1) Conjunction_init_def)
  qed
qed

subsection \<open>The result of \<open>parse\<close>\<close>

text \<open>
  Claim C1, as the specification states it, fails: \<open>parse\<close> does not wrap the call of
  \<open>parse_string\<close>, and no rule of the grammar matches a lone double quote (it opens a
  quoted string that never closes, and \<open>unquoted_fragment\<close> excludes the character), so
  for an input of this one character the \<open>ParseException\<close> of the parsing library
  reaches the caller.
\<close>

theorem parse_lone_quote_raises:
  "parse default_parser [CHR 0x22] = Inl ParseException"
  by (simp add: grammar_defs)

text \<open>
  Claim C1, amended. For every parser and every input string, \<open>parse\<close> returns a
  \<open>Conjunction\<close>, or raises \<open>ParsingException\<close>, or raises the \<open>ParseException\<close> of the
  parsing library, or raises the interpreter's \<open>RecursionError\<close> (attentions or
  parentheses nested more deeply than the interpreter allows), or raises the
  \<open>OverflowError\<close> of \<open>pow\<close> (a run of signs whose weight leaves the range of a double);
  no other exception leaves it. Text with unbalanced parentheses and a stray sign, such
  as \<open>a badly (formed test+ prompt\<close>, is returned as one literal fragment of weight 1.
  With the default parser, 42 attentions nested in each other raise \<open>RecursionError\<close>.
\<close>

theorem parse_returns_or_raises:
  "((\<exists>ps wts. parse self s = Inr (Conjunction ps wts))
      \<or> parse self s = Inl ParsingException \<or> parse self s = Inl ParseException
      \<or> parse self s = Inl RecursionError \<or> parse self s = Inl OverflowError)
   \<and> parse default_parser ''a badly (formed test+ prompt''
       = Inr (Conjunction [FlattenedPrompt [Fragment ''a badly (formed test+ prompt'' 1]] [1])
   \<and> parse default_parser
         ''2(2(2(2(2(2(2(2(2(2(2(2(2(2(2(2(2(2(2(2(2(2(2(2(2(2(2(2(2(2(2(2(2(2(2(2(2(2(2(2(2(2(a))))))))))))))))))))))))))))))))))))))))))''
       = Inl RecursionError"
proof (intro conjI)
  show "(\<exists>ps wts. parse self s = Inr (Conjunction ps wts))
      \<or> parse self s = Inl ParsingException \<or> parse self s = Inl ParseException
      \<or> parse self s = Inl RecursionError \<or> parse self s = Inl OverflowError"
  proof (cases "is_blank s")
    case True
    then show ?thesis by (simp add: parse_def parse_with_blank)
  next
    case False
    have "case parse_string (conjunction self) s of
             Inr v \<Rightarrow> (\<exists>ts. v = ParseResults ts \<and> one_of raw_root ts)
           | Inl e \<Rightarrow> e = ParseException \<or> escapes e"
      using ok_conjunction by (rule parse_string_ok)
    then consider e where "parse_string (conjunction self) s = Inl e"
        "e = ParseException \<or> escapes e"
      | n where "parse_string (conjunction self) s = Inr (ParseResults [n])" "raw_root n"
      by (auto simp: one_of_def split: sum.splits)
    then show ?thesis
    proof cases
      case 1
      then show ?thesis using False by (auto simp: parse_def parse_with_def escapes_def)
    next
      case 2
      then show ?thesis using False flatten_raw_root [OF 2(2)]
        by (auto simp: parse_def parse_with_def)
    qed
  qed
next
  show "parse default_parser ''a badly (formed test+ prompt''
       = Inr (Conjunction [FlattenedPrompt [Fragment ''a badly (formed test+ prompt'' 1]] [1])"
    by (simp add: grammar_defs)
next
  show "parse default_parser
         ''2(2(2(2(2(2(2(2(2(2(2(2(2(2(2(2(2(2(2(2(2(2(2(2(2(2(2(2(2(2(2(2(2(2(2(2(2(2(2(2(2(2(a))))))))))))))))))))))))))))))))))))))))))''
       = Inl RecursionError"
    by (simp add: grammar_defs)
qed

end
